theory Spec2Isabelle
  imports Complex_Main "HOL-Library.Word" "HOL-Library.Log_Nat" "HOL-Library.Sublist"
    "HOL-Library.Char_ord" "HOL-Library.List_Lexorder"
begin

text \<open>
  The package \<open>pg\<close> (github.com/ggicci/pg): offset and seek pagination values, the
  options of a list query, the count statement derived from a select statement, and
  \<open>List\<close>, which counts, decides whether the requested page can hold rows, and only
  then fetches it.
\<close>

section \<open>Pagination value objects\<close>

text \<open>
  Go's \<open>int64\<close> is a 64-bit word read in two's complement: \<open>+\<close>, \<open>-\<close> and \<open>*\<close>
  wrap around, comparisons are the signed ones (\<open>\<le>s\<close>, \<open><s\<close>).
\<close>

type_synonym int64 = "64 word"

subsection \<open>The float64 arithmetic of \<open>normalize\<close>\<close>

text \<open>
  \<open>normalize\<close> computes \<open>int64(math.Ceil(float64(p.CountRecords) / float64(p.PerPage)))\<close>.
  A finite double is \<open>m * 2 ^ e\<close> with a mantissa of at most 53 bits; conversion and
  division round to the nearest double, ties to the even mantissa. The values that occur
  (integers of magnitude at most \<open>2 ^ 63\<close> and quotients of two positive such integers)
  stay clear of overflow and of the subnormal range.
\<close>

definition rne :: "int \<Rightarrow> int \<Rightarrow> int" where
  \<comment> \<open>\<open>a / b\<close> rounded to the nearest integer, ties to even (\<open>0 \<le> a\<close>, \<open>0 < b\<close>)\<close>
  "rne a b =
     (let q = a div b; r = a mod b
      in if 2 * r < b \<or> (2 * r = b \<and> even q) then q else q + 1)"

definition f64_of_int :: "int \<Rightarrow> int" where
  \<comment> \<open>\<open>float64(n)\<close>: the value of the double nearest to \<open>n\<close>, itself an integer\<close>
  "f64_of_int n =
     (let k = nat (bitlen \<bar>n\<bar> - 53)
      in sgn n * rne \<bar>n\<bar> (2 ^ k) * 2 ^ k)"

definition f64_div :: "int \<Rightarrow> int \<Rightarrow> int \<times> int" where
  \<comment> \<open>\<open>x / y\<close> on doubles of integer value, \<open>0 \<le> x\<close> and \<open>0 < y\<close>: the double
      \<open>m * 2 ^ e\<close> nearest to the quotient, returned as \<open>(m, e)\<close>\<close>
  "f64_div x y =
     (if x = 0 then (0, 0)
      else
        let d = bitlen x - bitlen y;
            e = (if y * 2 ^ nat d \<le> x * 2 ^ nat (- d) then d else d - 1) - 52
        in (rne (x * 2 ^ nat (- e)) (y * 2 ^ nat e), e))"

definition f64_ceil :: "int \<times> int \<Rightarrow> int" where
  \<comment> \<open>\<open>math.Ceil\<close> of the double \<open>m * 2 ^ e\<close>; the result is a double of integer value\<close>
  "f64_ceil x =
     (case x of (m, e) \<Rightarrow>
        if 0 \<le> e then m * 2 ^ nat e else - ((- m) div 2 ^ nat (- e)))"

definition int64_of_f64 :: "int \<Rightarrow> int64" where
  \<comment> \<open>\<open>int64(f)\<close> for a double of integer value. Go leaves the result to the implementation
      when \<open>f\<close> is out of range, which here is \<open>f = 2 ^ 63\<close> only; amd64 yields the
      minimal \<open>int64\<close>, as the wrap-around does.\<close>
  "int64_of_f64 f = word_of_int f"

subsection \<open>OffsetPagination\<close>

record OffsetPagination =
  Page :: int64
  PerPage :: int64
  CountPages :: int64
  CountRecords :: int64
  defaultPerPage :: int64

definition ceil_div_f64 :: "int64 \<Rightarrow> int64 \<Rightarrow> int64" where
  \<comment> \<open>\<open>int64(math.Ceil(float64(a) / float64(b)))\<close>\<close>
  "ceil_div_f64 a b =
     int64_of_f64 (f64_ceil (f64_div (f64_of_int (sint a)) (f64_of_int (sint b))))"

definition normalize :: "OffsetPagination \<Rightarrow> OffsetPagination" where
  "normalize p0 =
     (let p1 = (if defaultPerPage p0 \<le>s 0 then p0\<lparr>defaultPerPage := 20\<rparr> else p0);
          p2 = (if Page p1 \<le>s 0 then p1\<lparr>Page := 1\<rparr> else p1);
          p3 = (if PerPage p2 \<le>s 0 then p2\<lparr>PerPage := defaultPerPage p2\<rparr> else p2);
          p4 = (if CountRecords p3 \<le>s 0 then p3\<lparr>CountRecords := 0\<rparr> else p3)
      in p4\<lparr>CountPages := ceil_div_f64 (CountRecords p4) (PerPage p4)\<rparr>)"

definition zero_OffsetPagination :: OffsetPagination where
  \<comment> \<open>Go's zero value of the struct\<close>
  "zero_OffsetPagination =
     \<lparr>Page = 0, PerPage = 0, CountPages = 0, CountRecords = 0, defaultPerPage = 0\<rparr>"

definition NewOffsetPagination :: "int64 \<Rightarrow> OffsetPagination" where
  "NewOffsetPagination dflt = normalize (zero_OffsetPagination\<lparr>defaultPerPage := dflt\<rparr>)"

text \<open>
  Methods on \<open>*OffsetPagination\<close> mutate the receiver: each returns the receiver's new
  state together with its result.
\<close>

definition SetDefaultPerPage :: "int64 \<Rightarrow> OffsetPagination \<Rightarrow> OffsetPagination \<times> int64" where
  "SetDefaultPerPage dflt p = (let p' = normalize (p\<lparr>defaultPerPage := dflt\<rparr>) in (p', defaultPerPage p'))"

definition OffsetPagination_Limit :: "OffsetPagination \<Rightarrow> OffsetPagination \<times> int64" where
  "OffsetPagination_Limit p = (let p' = normalize p in (p', PerPage p'))"

definition OffsetPagination_Offset :: "OffsetPagination \<Rightarrow> OffsetPagination \<times> int64" where
  "OffsetPagination_Offset p = (let p' = normalize p in (p', (Page p' - 1) * PerPage p'))"

definition CurrentPage :: "OffsetPagination \<Rightarrow> OffsetPagination \<times> int64" where
  "CurrentPage p = (let p' = normalize p in (p', Page p'))"

definition PageSize :: "OffsetPagination \<Rightarrow> OffsetPagination \<times> int64" where
  "PageSize p = (let p' = normalize p in (p', PerPage p'))"

definition SetCountRecords :: "int64 \<Rightarrow> OffsetPagination \<Rightarrow> OffsetPagination" where
  "SetCountRecords tot p = normalize (p\<lparr>CountRecords := tot\<rparr>)"

subsection \<open>SeekPagination\<close>

record SeekPagination =
  limit :: int64
  cursor :: string
  defaultLimit :: int64

definition NewSeekPagination :: "int64 \<Rightarrow> SeekPagination" where
  "NewSeekPagination dflt =
     (let dflt' = (if dflt \<le>s 0 then 10 else dflt)
      in \<lparr>limit = 0, cursor = [], defaultLimit = dflt'\<rparr>)"

definition SeekPagination_normalize :: "SeekPagination \<Rightarrow> SeekPagination" where
  "SeekPagination_normalize p = (if limit p \<le>s 0 then p\<lparr>limit := defaultLimit p\<rparr> else p)"

definition SetLimit :: "int64 \<Rightarrow> SeekPagination \<Rightarrow> SeekPagination \<times> int64" where
  "SetLimit newLimit p = (let p' = SeekPagination_normalize (p\<lparr>limit := newLimit\<rparr>) in (p', limit p'))"

definition SeekPagination_Limit :: "SeekPagination \<Rightarrow> int64" where
  "SeekPagination_Limit p = limit p"

definition SetCursor :: "string \<Rightarrow> SeekPagination \<Rightarrow> SeekPagination \<times> string" where
  "SetCursor newCursor p = (let p' = p\<lparr>cursor := newCursor\<rparr> in (p', cursor p'))"

definition Cursor :: "SeekPagination \<Rightarrow> string" where
  "Cursor p = cursor p"

section \<open>Link headers\<close>

subsection \<open>Library functions: \<open>strconv\<close>, \<open>strings\<close>, \<open>net/url\<close>\<close>

text \<open>
  What \<open>LinkHeader\<close> calls of Go's standard library: \<open>strconv.FormatInt\<close> in base
  10, \<open>strings.Join\<close>, and of \<open>net/url\<close> the methods \<open>Set\<close> and \<open>Encode\<close> of
  \<open>url.Values\<close> with \<open>url.QueryEscape\<close>.
\<close>

definition digit :: "nat \<Rightarrow> char" where
  "digit n = char_of (48 + n)"

fun FormatUint :: "nat \<Rightarrow> string" where
  "FormatUint n = (if n < 10 then [digit n] else FormatUint (n div 10) @ [digit (n mod 10)])"

declare FormatUint.simps [simp del]

definition FormatInt :: "int64 \<Rightarrow> string" where
  \<comment> \<open>\<open>strconv.FormatInt(i, 10)\<close>\<close>
  "FormatInt i =
     (if sint i < 0 then CHR ''-'' # FormatUint (nat (- sint i)) else FormatUint (nat (sint i)))"

fun Join :: "string list \<Rightarrow> string \<Rightarrow> string" where
  "Join [] sep = []"
| "Join [x] sep = x"
| "Join (x # y # ys) sep = x @ sep @ Join (y # ys) sep"

text \<open>
  \<open>url.Values\<close> is a \<open>map[string][]string\<close>: an association list with one entry for
  each key. \<open>Encode\<close> writes the keys in sorted order (strings compare bytewise), every
  key and value escaped as a query component.
\<close>

type_synonym Values = "(string \<times> string list) list"

fun Values_Set :: "string \<Rightarrow> string \<Rightarrow> Values \<Rightarrow> Values" where
  "Values_Set key v [] = [(key, [v])]"
| "Values_Set key v ((k, vs) # m) =
     (if k = key then (key, [v]) # m else (k, vs) # Values_Set key v m)"

definition shouldEscape :: "char \<Rightarrow> bool" where
  \<comment> \<open>in mode \<open>encodeQueryComponent\<close>: letters, digits and \<open>-_.~\<close> are kept\<close>
  "shouldEscape c =
     (let n = (of_char c :: nat)
      in \<not> ((97 \<le> n \<and> n \<le> 122) \<or> (65 \<le> n \<and> n \<le> 90) \<or> (48 \<le> n \<and> n \<le> 57)
             \<or> c \<in> set ''-_.~''))"

definition upperhex :: "nat \<Rightarrow> char" where
  "upperhex n = ''0123456789ABCDEF'' ! n"

definition QueryEscape :: "string \<Rightarrow> string" where
  "QueryEscape s =
     concat (map (\<lambda>c. if shouldEscape c
                       then (if c = CHR '' '' then ''+''
                             else [CHR ''%'', upperhex (of_char c div 16), upperhex (of_char c mod 16)])
                       else [c]) s)"

definition Encode :: "Values \<Rightarrow> string" where
  "Encode v =
     Join (concat (map (\<lambda>(k, vs). map (\<lambda>x. QueryEscape k @ ''='' @ QueryEscape x) vs)
                       (sort_key fst v))) ''&''"

record URL =
  Path :: string
  Query :: Values  \<comment> \<open>what \<open>theURL.Query()\<close> returns: the parsed query string\<close>

subsection \<open>\<open>OffsetPagination.LinkHeader\<close>\<close>

definition link :: "URL \<Rightarrow> string \<Rightarrow> string \<Rightarrow> string" where
  \<comment> \<open>\<open>l := theURL.Query(); l.Set("page", page);
      fmt.Sprintf(`<%s?%s>; rel="..."`, theURL.Path, l.Encode())\<close>\<close>
  "link theURL page rel =
     ''<'' @ Path theURL @ ''?'' @ Encode (Values_Set ''page'' page (Query theURL))
       @ ''>; rel='' @ [CHR 0x22] @ rel @ [CHR 0x22]"

definition linkHeaders :: "OffsetPagination \<Rightarrow> URL \<Rightarrow> string list" where
  "linkHeaders p theURL =
     [link theURL ''1'' ''first'']
     @ (if 1 <s Page p then [link theURL (FormatInt (Page p - 1)) ''prev''] else [])
     @ (if Page p + 1 <s CountPages p then [link theURL (FormatInt (Page p + 1)) ''next''] else [])
     @ [link theURL (FormatInt (CountPages p)) ''last'']"

definition LinkHeader :: "OffsetPagination \<Rightarrow> URL \<Rightarrow> string" where
  "LinkHeader p theURL = Join (linkHeaders p theURL) '', ''"

definition has_rel :: "string \<Rightarrow> string \<Rightarrow> bool" where
  \<comment> \<open>the relation an entry of a Link header carries: it ends in \<open>rel="r"\<close>\<close>
  "has_rel r entry = suffix (''rel='' @ [CHR 0x22] @ r @ [CHR 0x22]) entry"

section \<open>Select statements\<close>

text \<open>
  Go's \<open>error\<close> values: one made by \<open>errors.New\<close> (or by a library), or one wrapped
  by \<open>fmt.Errorf("...: %w", err)\<close>.
\<close>

datatype error = Err string | Wrap string error

subsection \<open>The statement builder\<close>

text \<open>
  The select statements are those of the statement builder, a dependency of the package
  (github.com/Masterminds/squirrel, v1.5.4 in \<open>go.mod\<close>) and not part of it: a value
  holding the clauses, rendered on demand to a text with placeholders and the list of
  the positional arguments. The record below has the fields of the library's
  \<open>selectData\<close>, the functions after it are the builder methods that the package calls,
  and the rendering is the library's \<open>ToSql\<close> for select statements. A \<open>Sqlizer\<close> is
  anything with a \<open>ToSql()\<close> method; it is represented by what the method returns. A
  placeholder format is represented by its method \<open>ReplacePlaceholders\<close>. The argument
  values are of any type \<open>'a\<close>.
\<close>

type_synonym 'a Sqlizer = "error + string \<times> 'a list"

record 'a SelectBuilder =
  PlaceholderFormat :: "string \<Rightarrow> error + string"
  Prefixes :: "'a Sqlizer list"
  Options :: "string list"
  Columns :: "'a Sqlizer list"
  From :: "'a Sqlizer option"
  Joins :: "'a Sqlizer list"
  WhereParts :: "'a Sqlizer list"
  GroupBys :: "string list"
  HavingParts :: "'a Sqlizer list"
  OrderByParts :: "'a Sqlizer list"
  Limit :: string
  Offset :: string
  Suffixes :: "'a Sqlizer list"

definition newPart :: "string \<Rightarrow> 'a Sqlizer" where
  \<comment> \<open>a clause given as plain text, without arguments\<close>
  "newPart pred = Inr (pred, [])"

definition builder_Delete_Columns :: "'a SelectBuilder \<Rightarrow> 'a SelectBuilder" where
  \<comment> \<open>\<open>builder.Delete(b, "Columns")\<close>\<close>
  "builder_Delete_Columns b = b\<lparr>Columns := []\<rparr>"

definition SelectBuilder_Columns :: "string list \<Rightarrow> 'a SelectBuilder \<Rightarrow> 'a SelectBuilder" where
  \<comment> \<open>\<open>b.Columns(columns...)\<close>\<close>
  "SelectBuilder_Columns columns b = b\<lparr>Columns := Columns b @ map newPart columns\<rparr>"

definition SelectBuilder_OrderBy :: "string list \<Rightarrow> 'a SelectBuilder \<Rightarrow> 'a SelectBuilder" where
  \<comment> \<open>\<open>b.OrderBy(orderBys...)\<close>\<close>
  "SelectBuilder_OrderBy orderBys b = b\<lparr>OrderByParts := OrderByParts b @ map newPart orderBys\<rparr>"

definition SelectBuilder_Limit :: "64 word \<Rightarrow> 'a SelectBuilder \<Rightarrow> 'a SelectBuilder" where
  \<comment> \<open>\<open>b.Limit(n)\<close> for a \<open>uint64\<close>, stored as \<open>fmt.Sprintf("%d", n)\<close>\<close>
  "SelectBuilder_Limit n b = b\<lparr>Limit := FormatUint (unat n)\<rparr>"

definition SelectBuilder_Offset :: "64 word \<Rightarrow> 'a SelectBuilder \<Rightarrow> 'a SelectBuilder" where
  "SelectBuilder_Offset n b = b\<lparr>Offset := FormatUint (unat n)\<rparr>"

subsection \<open>Rendering\<close>

text \<open>
  Rendering carries the text written so far and the arguments collected so far.
  \<open>appendToSql\<close> renders a list of parts: a part that fails stops the rendering, a part
  with an empty text is skipped, and the separator precedes every part but the one at
  index 0.
\<close>

type_synonym 'a rendering = "string \<times> 'a list"

definition writeString :: "string \<Rightarrow> 'a rendering \<Rightarrow> 'a rendering" where
  "writeString s acc = (fst acc @ s, snd acc)"

fun appendToSql_from :: "nat \<Rightarrow> 'a Sqlizer list \<Rightarrow> string \<Rightarrow> 'a rendering \<Rightarrow> error + 'a rendering" where
  "appendToSql_from i [] sep acc = Inr acc"
| "appendToSql_from i (p # parts) sep acc =
     (case p of
        Inl err \<Rightarrow> Inl err
      | Inr (partSql, partArgs) \<Rightarrow>
          if partSql = [] then appendToSql_from (Suc i) parts sep acc
          else appendToSql_from (Suc i) parts sep
                 (fst acc @ (if 0 < i then sep else []) @ partSql, snd acc @ partArgs))"

definition appendToSql :: "'a Sqlizer list \<Rightarrow> string \<Rightarrow> 'a rendering \<Rightarrow> error + 'a rendering" where
  "appendToSql parts sep acc = appendToSql_from 0 parts sep acc"

definition andThen ::
  "('s \<Rightarrow> error + 's) \<Rightarrow> ('s \<Rightarrow> error + 's) \<Rightarrow> 's \<Rightarrow> error + 's" where
  \<comment> \<open>one step after the other; an error ends the rendering\<close>
  "andThen g k acc = (case g acc of Inl err \<Rightarrow> Inl err | Inr acc' \<Rightarrow> k acc')"

definition writeClause ::
  "string \<Rightarrow> 'a Sqlizer list \<Rightarrow> string \<Rightarrow> 'a rendering \<Rightarrow> error + 'a rendering" where
  \<comment> \<open>\<open>if len(parts) > 0 { sql.WriteString(kw); args, err = appendToSql(parts, sql, sep, args) }\<close>\<close>
  "writeClause kw parts sep acc =
     (if parts = [] then Inr acc else appendToSql parts sep (writeString kw acc))"

definition writeText :: "bool \<Rightarrow> string \<Rightarrow> 'a rendering \<Rightarrow> error + 'a rendering" where
  \<comment> \<open>\<open>if present { sql.WriteString(s) }\<close>\<close>
  "writeText present s acc = Inr (if present then writeString s acc else acc)"

definition writePrefixes :: "'a Sqlizer list \<Rightarrow> 'a rendering \<Rightarrow> error + 'a rendering" where
  \<comment> \<open>\<open>if len(d.Prefixes) > 0 { args, err = appendToSql(d.Prefixes, sql, " ", args);
      sql.WriteString(" ") }\<close>\<close>
  "writePrefixes parts acc =
     (if parts = [] then Inr acc
      else case appendToSql parts '' '' acc of
             Inl err \<Rightarrow> Inl err
           | Inr acc' \<Rightarrow> Inr (writeString '' '' acc'))"

definition selectHead :: "'a SelectBuilder \<Rightarrow> 'a rendering \<Rightarrow> error + 'a rendering" where
  \<comment> \<open>the text before the result columns\<close>
  "selectHead d =
     andThen (writePrefixes (Prefixes d))
    (andThen (writeText True ''SELECT '')
             (writeText (Options d \<noteq> []) (Join (Options d) '' '' @ '' '')))"

definition selectTail :: "'a SelectBuilder \<Rightarrow> 'a rendering \<Rightarrow> error + 'a rendering" where
  \<comment> \<open>the text after the result columns\<close>
  "selectTail d =
     andThen (writeClause '' FROM '' (case From d of None \<Rightarrow> [] | Some f \<Rightarrow> [f]) [])
    (andThen (writeClause '' '' (Joins d) '' '')
    (andThen (writeClause '' WHERE '' (WhereParts d) '' AND '')
    (andThen (writeText (GroupBys d \<noteq> []) ('' GROUP BY '' @ Join (GroupBys d) '', ''))
    (andThen (writeClause '' HAVING '' (HavingParts d) '' AND '')
    (andThen (writeClause '' ORDER BY '' (OrderByParts d) '', '')
    (andThen (writeText (Limit d \<noteq> []) ('' LIMIT '' @ Limit d))
    (andThen (writeText (Offset d \<noteq> []) ('' OFFSET '' @ Offset d))
             (writeClause '' '' (Suffixes d) '' ''))))))))"

definition toSqlRaw :: "'a SelectBuilder \<Rightarrow> error + 'a rendering" where
  "toSqlRaw d =
     (if Columns d = []
      then Inl (Err ''select statements must have at least one result column'')
      else andThen (selectHead d)
          (andThen (appendToSql (Columns d) '', '') (selectTail d)) ([], []))"

definition ToSql :: "'a SelectBuilder \<Rightarrow> error + 'a rendering" where
  "ToSql d =
     (case toSqlRaw d of
        Inl err \<Rightarrow> Inl err
      | Inr (sqlStr, args) \<Rightarrow>
          (case PlaceholderFormat d sqlStr of
             Inl err \<Rightarrow> Inl err
           | Inr sqlStr' \<Rightarrow> Inr (sqlStr', args)))"

subsection \<open>The count statement\<close>

definition toCountQuery :: "'a SelectBuilder \<Rightarrow> 'a SelectBuilder" where
  "toCountQuery query =
     (let countQuery = builder_Delete_Columns query;
          countQuery = SelectBuilder_Columns [''COUNT(*)''] countQuery
      in countQuery)"

section \<open>List options\<close>

text \<open>
  \<open>WithOffsetPagination\<close> and \<open>List\<close> work on pointers to OffsetPagination values, and
  \<open>Limit()\<close> and \<open>Offset()\<close> write the normalized state back through them: the
  pagination objects live in a store, and a pointer is an address. Addresses below
  \<open>top\<close> are allocated. Pointers are never nil here.
\<close>

type_synonym addr = nat

record heap =
  objs :: "addr \<Rightarrow> OffsetPagination"
  top :: addr

definition new :: "OffsetPagination \<Rightarrow> heap \<Rightarrow> addr \<times> heap" where
  "new v h = (top h, h\<lparr>objs := (objs h)(top h := v), top := Suc (top h)\<rparr>)"

definition store :: "addr \<Rightarrow> OffsetPagination \<Rightarrow> heap \<Rightarrow> heap" where
  "store a v h = h\<lparr>objs := (objs h)(a := v)\<rparr>"

text \<open>
  A \<open>ListOption\<close> is any value with an \<open>Apply\<close> method. The package's own are a
  \<open>*withSortByOption\<close> (column name and direction) and a \<open>*withOffsetPaginationOption\<close>
  (the pointer \<open>page\<close>); every other one, such as the \<open>ListOptionFunc\<close> values made by
  \<open>With\<close> and \<open>Without\<close> or supplied by the caller, is a function on statements.
\<close>

datatype 'a ListOption =
    ListOptionFunc "'a SelectBuilder \<Rightarrow> 'a SelectBuilder"
  | withSortByOption string string
  | withOffsetPaginationOption addr

fun Apply :: "'a ListOption \<Rightarrow> 'a SelectBuilder \<Rightarrow> heap \<Rightarrow> 'a SelectBuilder \<times> heap" where
  "Apply (ListOptionFunc f) sb h = (f sb, h)"
| "Apply (withSortByOption columnName direction) sb h =
     (SelectBuilder_OrderBy [columnName @ '' '' @ direction] sb, h)"
| "Apply (withOffsetPaginationOption page) sb h =
     (case OffsetPagination_Limit (objs h page) of (p1, lmt) \<Rightarrow>
      case OffsetPagination_Offset p1 of (p2, off) \<Rightarrow>
        (SelectBuilder_Offset off (SelectBuilder_Limit lmt sb), store page p2 h))"

definition WithSortBy :: "string \<Rightarrow> string \<Rightarrow> 'a ListOption" where
  "WithSortBy columnName direction = withSortByOption columnName direction"

definition WithOffsetPagination :: "addr \<Rightarrow> heap \<Rightarrow> 'a ListOption \<times> heap" where
  \<comment> \<open>\<open>page := new(OffsetPagination); *page = *pagination\<close>\<close>
  "WithOffsetPagination pagination h =
     (case new (objs h pagination) h of (page, h') \<Rightarrow> (withOffsetPaginationOption page, h'))"

fun IsPaginationOption :: "'a ListOption \<Rightarrow> bool" where
  "IsPaginationOption (withOffsetPaginationOption page) = True"
| "IsPaginationOption opt = False"

fun IsSortingOption :: "'a ListOption \<Rightarrow> bool" where
  "IsSortingOption (withSortByOption columnName direction) = True"
| "IsSortingOption opt = False"

fun categorize ::
  "'a ListOption list \<Rightarrow> 'a ListOption list \<times> 'a ListOption list \<times> 'a ListOption list
     \<Rightarrow> 'a ListOption list \<times> 'a ListOption list \<times> 'a ListOption list" where
  "categorize [] acc = acc"
| "categorize (opt # opts) (filtering, paging, sorting) =
     categorize opts
       (if IsPaginationOption opt then (filtering, paging @ [opt], sorting)
        else if IsSortingOption opt then (filtering, paging, sorting @ [opt])
        else (filtering @ [opt], paging, sorting))"

definition CategorizedListOptions ::
  "'a ListOption list \<Rightarrow> 'a ListOption list \<times> 'a ListOption list \<times> 'a ListOption list" where
  \<comment> \<open>returns \<open>(filtering, paging, sorting)\<close>\<close>
  "CategorizedListOptions opts = categorize opts ([], [], [])"

fun ApplyAll :: "'a ListOption list \<Rightarrow> 'a SelectBuilder \<Rightarrow> heap \<Rightarrow> 'a SelectBuilder \<times> heap" where
  \<comment> \<open>\<open>for _, opt := range opts { query = opt.Apply(query) }\<close>\<close>
  "ApplyAll [] query h = (query, h)"
| "ApplyAll (opt # opts) query h =
     (case Apply opt query h of (query', h') \<Rightarrow> ApplyAll opts query' h')"

section \<open>List\<close>

text \<open>
  The database, as \<open>List\<close> uses it, is a parameter: \<open>QueryRow\<close> stands for
  \<open>DB().QueryRow(ctx, sqlstr, args...).Scan(&total)\<close>, which runs a statement and scans
  the single value of its single row; \<open>Select\<close> stands for
  \<open>pgxscan.Select(ctx, DB(), &vs, sqlstr, args...)\<close>, which runs a statement and scans
  the rows into the destination, and returns the destination as it is afterwards and
  the error, if any. Every step of \<open>List\<close> that assembles a statement (\<open>ToSql\<close>) or
  goes to the database is recorded, in order. The last case of \<open>List\<close> is the failed
  type assertion on \<open>pagingOpts[0]\<close>, which cannot happen: the paging options are
  those that \<open>IsPaginationOption\<close> accepts.
\<close>

record ('a, 'v) DB =
  QueryRow :: "string \<Rightarrow> 'a list \<Rightarrow> error + int64"
  Select :: "'v \<Rightarrow> string \<Rightarrow> 'a list \<Rightarrow> 'v \<times> error option"

datatype 'a event =
    Assembled "error + string \<times> 'a list"
  | QueryRowCall string "'a list"
  | SelectCall string "'a list"

definition defaultPaging ::
  "'a ListOption list \<Rightarrow> heap \<Rightarrow> 'a ListOption list \<times> heap" where
  \<comment> \<open>\<open>if len(pagingOpts) == 0 {
        pagingOpts = []ListOption{WithOffsetPagination(NewOffsetPagination(20))} }\<close>\<close>
  "defaultPaging pagingOpts h =
     (if length pagingOpts = 0
      then case new (NewOffsetPagination 20) h of (p, h') \<Rightarrow>
           case WithOffsetPagination p h' of (opt, h'') \<Rightarrow> ([opt], h'')
      else (pagingOpts, h))"

definition List ::
  "('a, 'v) DB \<Rightarrow> 'v \<Rightarrow> 'a SelectBuilder \<Rightarrow> 'a ListOption list \<Rightarrow> heap
     \<Rightarrow> ('v \<times> addr option \<times> error option) \<times> heap \<times> 'a event list" where
  \<comment> \<open>returns the three results of \<open>List\<close>, the store and the record of the steps\<close>
  "List db vs query opts h =
     (case CategorizedListOptions opts of (filteringOpts, pagingOpts0, sortingOpts) \<Rightarrow>
      case defaultPaging pagingOpts0 h of (pagingOpts, h1) \<Rightarrow>
      if length pagingOpts > 1
      then ((vs, None, Some (Err ''only one pagination option is allowed'')), h1, [])
      else
        case hd pagingOpts of
          withOffsetPaginationOption pagination \<Rightarrow>
            (case ApplyAll filteringOpts query h1 of (query1, h2) \<Rightarrow>
             case ToSql (toCountQuery query1) of
               Inl err \<Rightarrow>
                 ((vs, None, Some (Wrap ''assemble count query'' err)), h2,
                  [Assembled (Inl err)])
             | Inr (sqlstr, args) \<Rightarrow>
                 (case QueryRow db sqlstr args of
                    Inl err \<Rightarrow>
                      ((vs, None, Some (Wrap ''count records'' err)), h2,
                       [Assembled (Inr (sqlstr, args)), QueryRowCall sqlstr args])
                  | Inr tot \<Rightarrow>
                      let h3 = store pagination (SetCountRecords tot (objs h2 pagination)) h2
                      in if CountRecords (objs h3 pagination) = 0
                            \<or> CountPages (objs h3 pagination) <s Page (objs h3 pagination)
                         then ((vs, Some pagination, None), h3,
                               [Assembled (Inr (sqlstr, args)), QueryRowCall sqlstr args])
                         else
                           case ApplyAll sortingOpts query1 h3 of (query2, h4) \<Rightarrow>
                           case ApplyAll pagingOpts query2 h4 of (query3, h5) \<Rightarrow>
                           case ToSql query3 of
                             Inl err \<Rightarrow>
                               ((vs, None, Some (Wrap ''assemble query'' err)), h5,
                                [Assembled (Inr (sqlstr, args)), QueryRowCall sqlstr args,
                                 Assembled (Inl err)])
                           | Inr (sqlstr', args') \<Rightarrow>
                               (case Select db vs sqlstr' args' of (vs', err) \<Rightarrow>
                                  ((vs', Some pagination, err), h5,
                                   [Assembled (Inr (sqlstr, args)), QueryRowCall sqlstr args,
                                    Assembled (Inr (sqlstr', args')), SelectCall sqlstr' args']))))
        | _ \<Rightarrow> ((vs, None, Some (Err ''interface conversion'')), h1, []))"

section \<open>Auxiliary notions and example values\<close>

text \<open>
  A rendering step is appending when what it adds to the text and to the arguments does
  not depend on what was rendered before.
\<close>

definition extends :: "'a rendering \<Rightarrow> error + 'a rendering \<Rightarrow> error + 'a rendering" where
  "extends acc r = (case r of Inl err \<Rightarrow> Inl err | Inr (t, b) \<Rightarrow> Inr (fst acc @ t, snd acc @ b))"

definition appending :: "('a rendering \<Rightarrow> error + 'a rendering) \<Rightarrow> bool" where
  "appending g = (\<forall>acc. g acc = extends acc (g ([], [])))"

text \<open>
  Example values: \<open>Select("*").From("users")\<close> with \<open>?\<close> placeholders, which are left
  as they are; a statement whose result column binds an argument,
  \<open>Select().Column("? AS one", 1).From("users").Where("id = ?", 2)\<close>; a filter adding
  \<open>id = ?\<close>; a database that counts 45 rows and returns one row; a store holding, at
  address 0, the caller's pagination with page 10 requested.
\<close>

definition users_query :: "int SelectBuilder" where
  "users_query =
     \<lparr>PlaceholderFormat = Inr, Prefixes = [], Options = [], Columns = [Inr (''*'', [])],
      From = Some (Inr (''users'', [])), Joins = [], WhereParts = [], GroupBys = [],
      HavingParts = [], OrderByParts = [], Limit = [], Offset = [], Suffixes = []\<rparr>"

definition column_arg_query :: "int SelectBuilder" where
  "column_arg_query =
     \<lparr>PlaceholderFormat = Inr, Prefixes = [], Options = [], Columns = [Inr (''? AS one'', [1])],
      From = Some (Inr (''users'', [])), Joins = [], WhereParts = [Inr (''id = ?'', [2])],
      GroupBys = [], HavingParts = [], OrderByParts = [], Limit = [], Offset = [],
      Suffixes = []\<rparr>"

definition where_id :: "int SelectBuilder \<Rightarrow> int SelectBuilder" where
  "where_id sb = sb\<lparr>WhereParts := WhereParts sb @ [Inr (''id = ?'', [7])]\<rparr>"

definition example_db :: "(int, string list) DB" where
  "example_db = \<lparr>QueryRow = (\<lambda>sqlstr args. Inr 45), Select = (\<lambda>vs sqlstr args. (vs @ [''row''], None))\<rparr>"

definition example_heap :: heap where
  "example_heap = \<lparr>objs = (\<lambda>a. (NewOffsetPagination 20)\<lparr>Page := 10\<rparr>), top = 1\<rparr>"

section \<open>Properties of the pagination value objects\<close>

lemma sle_consts [simp]:
  "\<not> (20::int64) \<le>s 0" "\<not> (10::int64) \<le>s 0" "\<not> (1::int64) \<le>s 0"
  by (simp_all add: word_sle_eq)

subsection \<open>What \<open>normalize\<close> leaves in each field\<close>

lemma normalize_defaultPerPage:
  "defaultPerPage (normalize p) = (if defaultPerPage p \<le>s 0 then 20 else defaultPerPage p)"
  by (simp add: normalize_def Let_def)

lemma normalize_Page:
  "Page (normalize p) = (if Page p \<le>s 0 then 1 else Page p)"
  by (simp add: normalize_def Let_def)

lemma normalize_PerPage:
  "PerPage (normalize p) =
     (if PerPage p \<le>s 0 then defaultPerPage (normalize p) else PerPage p)"
  by (simp add: normalize_def Let_def)

lemma normalize_CountRecords:
  "CountRecords (normalize p) = (if CountRecords p \<le>s 0 then 0 else CountRecords p)"
  by (simp add: normalize_def Let_def)

lemma normalize_CountPages:
  "CountPages (normalize p) = ceil_div_f64 (CountRecords (normalize p)) (PerPage (normalize p))"
  by (simp add: normalize_def Let_def)

lemma normalize_defaultPerPage_pos: "\<not> defaultPerPage (normalize p) \<le>s 0"
  by (simp add: normalize_defaultPerPage)

lemma normalize_Page_pos: "\<not> Page (normalize p) \<le>s 0"
  by (simp add: normalize_Page)

lemma normalize_PerPage_pos: "\<not> PerPage (normalize p) \<le>s 0"
  by (simp add: normalize_PerPage normalize_defaultPerPage)

lemma normalize_CountRecords_nonneg:
  "CountRecords (normalize p) \<le>s 0 \<longrightarrow> CountRecords (normalize p) = 0"
  by (simp add: normalize_CountRecords)

text \<open>A state that already satisfies the invariants is a fixed point of \<open>normalize\<close>.\<close>

lemma normalize_fixed:
  assumes "\<not> defaultPerPage p \<le>s 0" and "\<not> Page p \<le>s 0" and "\<not> PerPage p \<le>s 0"
    and "CountRecords p \<le>s 0 \<longrightarrow> CountRecords p = 0"
    and "CountPages p = ceil_div_f64 (CountRecords p) (PerPage p)"
  shows "normalize p = p"
proof (cases "CountRecords p \<le>s 0")
  case True
  with assms have "CountRecords p = 0" by simp
  with assms show ?thesis by (simp add: normalize_def Let_def)
next
  case False
  with assms show ?thesis by (simp add: normalize_def Let_def)
qed

lemma normalize_idem: "normalize (normalize p) = normalize p"
  by (rule normalize_fixed)
     (rule normalize_defaultPerPage_pos normalize_Page_pos normalize_PerPage_pos
           normalize_CountRecords_nonneg normalize_CountPages)+

lemma ceil_div_f64_zero: "ceil_div_f64 0 b = 0"
  by (simp add: ceil_div_f64_def f64_of_int_def f64_div_def f64_ceil_def int64_of_f64_def rne_def)

lemma normalize_CountPages_zero: "CountRecords (normalize p) = 0 \<Longrightarrow> CountPages (normalize p) = 0"
  by (simp add: normalize_CountPages ceil_div_f64_zero)

subsection \<open>SeekPagination: the limit read back\<close>

text \<open>
  Claim C5. Every access of a SeekPagination's limit is said to coerce a stored limit
  \<open>\<le> 0\<close> to the default limit, so that \<open>Limit()\<close> returns a positive number. \<open>Limit()\<close>
  returns the stored field as it is, and \<open>NewSeekPagination\<close> stores no limit: on a
  freshly constructed value \<open>Limit()\<close> is 0, not the default limit 10.
\<close>

theorem SeekPagination_Limit_fresh_is_zero:
  "SeekPagination_Limit (NewSeekPagination 10) = 0
   \<and> defaultLimit (NewSeekPagination 10) = 10
   \<and> \<not> 0 <s SeekPagination_Limit (NewSeekPagination 10)"
  by (simp add: SeekPagination_Limit_def NewSeekPagination_def Let_def word_sless_alt)

subsection \<open>OffsetPagination: total pages\<close>

text \<open>
  Up to \<open>2 ^ 53\<close> records the conversions to \<open>float64\<close> lose nothing that matters:
  the record count is converted exactly, a page size beyond \<open>2 ^ 53\<close> stays beyond the
  record count, and the rounded quotient has the ceiling of the exact one.
\<close>

lemma b54: "bitlen (2 ^ 53 :: int) = 54"
  by code_simp

lemma f64_of_int_pow53: "f64_of_int (2 ^ 53) = 2 ^ 53"
proof -
  have "nat (bitlen \<bar>2 ^ 53 :: int\<bar> - 53) = 1" using b54 by simp
  then have "f64_of_int (2 ^ 53) = sgn (2 ^ 53) * rne \<bar>2 ^ 53\<bar> (2 ^ 1) * 2 ^ 1"
    unfolding f64_of_int_def Let_def by (simp only:)
  also have "\<dots> = 2 ^ 53" by (simp add: rne_def Let_def)
  finally show ?thesis .
qed

lemma f64_of_int_small:
  assumes "0 \<le> a" and "a < 2 ^ 53"
  shows "f64_of_int a = a"
proof -
  have "bitlen a \<le> 53"
    using assms bitlen_le_iff_power [of a 53] by simp
  then have "nat (bitlen \<bar>a\<bar> - 53) = 0" using assms(1) by simp
  then have "f64_of_int a = sgn a * rne \<bar>a\<bar> (2 ^ 0) * 2 ^ 0"
    unfolding f64_of_int_def Let_def by (simp only:)
  also have "\<dots> = a" using assms(1) by (cases "a = 0") (simp_all add: rne_def Let_def)
  finally show ?thesis .
qed

lemma f64_of_int_exact:
  assumes "0 \<le> a" and "a \<le> 2 ^ 53"
  shows "f64_of_int a = a"
  using assms f64_of_int_small [of a] f64_of_int_pow53 by (cases "a = 2 ^ 53") auto

lemma div_le_of_le_mult:
  assumes "0 < (y::int)" and "X \<le> K * y"
  shows "X div y \<le> K"
proof -
  have "X div y \<le> (K * y) div y" using assms by (intro zdiv_mono1)
  also have "\<dots> = K" using assms(1) by simp
  finally show ?thesis .
qed

lemma le_div_of_mult_le:
  assumes "0 < (y::int)" and "K * y \<le> X"
  shows "K \<le> X div y"
proof -
  have "K = (K * y) div y" using assms(1) by simp
  also have "\<dots> \<le> X div y" using assms by (intro zdiv_mono1)
  finally show ?thesis .
qed

lemma rne_upper:
  assumes "0 < y" and "X \<le> K * y"
  shows "rne X y \<le> K"
proof -
  have q: "X div y \<le> K" using assms by (rule div_le_of_le_mult)
  show ?thesis
  proof (cases "X div y = K")
    case True
    have "X mod y = X - X div y * y" by (simp add: minus_div_mult_eq_mod)
    with True assms have "X mod y \<le> 0" by simp
    moreover have "0 \<le> X mod y" using assms(1) by simp
    ultimately have "X mod y = 0" by simp
    with True assms(1) show ?thesis by (simp add: rne_def Let_def)
  next
    case False
    with q have "X div y + 1 \<le> K" by simp
    then show ?thesis by (simp add: rne_def Let_def)
  qed
qed

lemma rne_lower:
  assumes "0 < y" and "y < 2 * (X - K * y)"
  shows "K + 1 \<le> rne X y"
proof -
  from assms have "K * y \<le> X" by simp
  with assms(1) have q: "K \<le> X div y" by (rule le_div_of_mult_le)
  show ?thesis
  proof (cases "X div y = K")
    case True
    have "X mod y = X - X div y * y" by (simp add: minus_div_mult_eq_mod)
    with True assms have "y < 2 * (X mod y)" by simp
    with True show ?thesis by (simp add: rne_def Let_def)
  next
    case False
    with q have "K + 1 \<le> X div y" by simp
    then show ?thesis by (simp add: rne_def Let_def)
  qed
qed

lemma rne_ge_div: "X div y \<le> rne X y"
  by (simp add: rne_def Let_def)

lemma ceil_div_bounds:
  assumes "0 < (y::int)"
  shows "(- ((- x) div y) - 1) * y < x" and "x \<le> - ((- x) div y) * y"
proof -
  define q where "q = (- x) div y"
  define r where "r = (- x) mod y"
  have "q * y + r = - x" by (simp add: q_def r_def)
  moreover have "0 \<le> r" and "r < y" using assms by (simp_all add: r_def)
  ultimately have "x \<le> - (q * y)" and "- (q * y) - y < x" by linarith+
  then show "(- ((- x) div y) - 1) * y < x" and "x \<le> - ((- x) div y) * y"
    by (simp_all add: q_def algebra_simps)
qed

lemma ceil_div_unique:
  assumes "0 < (D::int)" and "N * D < m" and "m \<le> (N + 1) * D"
  shows "- ((- m) div D) = N + 1"
proof -
  have "(- m) div D = - (N + 1)"
  proof (rule int_div_pos_eq)
    show "- m = D * - (N + 1) + ((N + 1) * D - m)" by (simp add: algebra_simps)
    show "0 \<le> (N + 1) * D - m" using assms(3) by simp
    show "(N + 1) * D - m < D" using assms(2) by (simp add: algebra_simps)
  qed
  then show ?thesis by simp
qed

lemma f64_of_int_large:
  assumes "2 ^ 53 \<le> b"
  shows "2 ^ 53 \<le> f64_of_int b"
proof -
  have "(0::int) < 2 ^ 53" by simp
  with assms have pos: "0 < b" by linarith
  have "\<not> bitlen b \<le> 53"
    using assms bitlen_le_iff_power [of b 53] by simp
  then have k: "1 \<le> bitlen b - 53" by simp
  define k where "k = nat (bitlen b - 53)"
  have k1: "1 \<le> k" using k by (simp add: k_def)
  have "nat (bitlen b - 1) = 52 + k" using k by (simp add: k_def)
  with bitlen_bounds [OF pos] have "2 ^ (52 + k) \<le> b" by simp
  then have "(2 ^ 52 :: int) * 2 ^ k \<le> b" by (simp only: power_add)
  then have "2 ^ 52 \<le> b div 2 ^ k"
    by (intro le_div_of_mult_le) simp_all
  with rne_ge_div [of b "2 ^ k"] have m: "2 ^ 52 \<le> rne b (2 ^ k)" by linarith
  have "(2::int) ^ 1 \<le> 2 ^ k" using k1 by (intro power_increasing) simp_all
  then have two: "(2::int) \<le> 2 ^ k" by simp
  have "(2 ^ 52 :: int) * 2 \<le> rne b (2 ^ k) * 2 ^ k"
    using m two by (intro mult_mono) simp_all
  moreover have "f64_of_int b = rne b (2 ^ k) * 2 ^ k"
    using pos by (simp add: f64_of_int_def Let_def k_def)
  ultimately show ?thesis by simp
qed

lemma powi_split: "(2::real) powi n = 2 ^ nat n / 2 ^ nat (- n)"
proof (cases "0 \<le> n")
  case True
  then show ?thesis by (simp add: power_int_def)
next
  case False
  then have "(2::real) powi n = (1 / 2) ^ nat (- n)"
    by (simp add: power_int_def)
  also have "\<dots> = 1 / 2 ^ nat (- n)" by (rule power_one_over)
  finally show ?thesis using False by simp
qed

lemma powi_pos: "0 < (2::real) powi n"
  by (simp add: powi_split)

lemma f64_div_exponent:
  assumes "0 < x" and "0 < y"
  defines "d \<equiv> bitlen x - bitlen y"
  defines "fl \<equiv> (if y * 2 ^ nat d \<le> x * 2 ^ nat (- d) then d else d - 1)"
  shows "y * 2 ^ nat (fl - 52) * 2 ^ 52 \<le> x * 2 ^ nat (- (fl - 52))"
proof -
  have xr: "0 < real_of_int x" and yr: "0 < real_of_int y" using assms by simp_all
  have A: "2 powi fl \<le> real_of_int x / real_of_int y"
  proof (cases "y * 2 ^ nat d \<le> x * 2 ^ nat (- d)")
    case True
    then have "real_of_int (y * 2 ^ nat d) \<le> real_of_int (x * 2 ^ nat (- d))"
      by (simp only: of_int_le_iff)
    then have "real_of_int y * 2 ^ nat d \<le> real_of_int x * 2 ^ nat (- d)" by simp
    then have "2 ^ nat d / 2 ^ nat (- d) \<le> real_of_int x / real_of_int y"
      using yr by (simp add: field_simps)
    with True show ?thesis by (simp add: fl_def powi_split)
  next
    case False
    have bx: "1 \<le> bitlen x" and "1 \<le> bitlen y"
      using assms(1,2) bitlen_le_iff_power [of x 0] bitlen_le_iff_power [of y 0]
      by (simp_all add: not_le [symmetric] del: not_le)
    from bitlen_bounds [OF assms(1)] have "2 ^ nat (bitlen x - 1) \<le> x" by simp
    then have "real_of_int (2 ^ nat (bitlen x - 1)) \<le> real_of_int x"
      by (simp only: of_int_le_iff)
    then have lx: "2 powi (bitlen x - 1) \<le> real_of_int x"
      using bx by (simp add: power_int_def)
    from bitlen_bounds [OF assms(2)] have "y \<le> 2 ^ nat (bitlen y)" by simp
    then have "real_of_int y \<le> real_of_int (2 ^ nat (bitlen y))"
      by (simp only: of_int_le_iff)
    then have uy: "real_of_int y \<le> 2 powi (bitlen y)"
      using \<open>1 \<le> bitlen y\<close> by (simp add: power_int_def)
    have "2 powi (d - 1) = 2 powi (bitlen x - 1) / (2::real) powi (bitlen y)"
      by (simp add: d_def power_int_diff [symmetric] algebra_simps)
    also have "\<dots> \<le> real_of_int x / real_of_int y"
    proof (rule frac_le)
      show "0 \<le> real_of_int x" using xr by simp
      show "2 powi (bitlen x - 1) \<le> real_of_int x" by (rule lx)
      show "0 < real_of_int y" by (rule yr)
      show "real_of_int y \<le> 2 powi bitlen y" by (rule uy)
    qed
    finally show ?thesis using False by (simp add: fl_def)
  qed
  have "(2::real) powi ((fl - 52) + 52) = 2 powi (fl - 52) * 2 powi 52"
    by (rule power_int_add) simp
  then have "(2::real) powi fl = 2 powi (fl - 52) * 2 ^ 52" by simp
  then have "(2::real) powi fl = 2 ^ nat (fl - 52) / 2 ^ nat (- (fl - 52)) * 2 ^ 52"
    using powi_split [of "fl - 52"] by simp
  with A have "2 ^ nat (fl - 52) / 2 ^ nat (- (fl - 52)) * 2 ^ 52 \<le> real_of_int x / real_of_int y"
    by simp
  then have "real_of_int y * 2 ^ nat (fl - 52) * 2 ^ 52 \<le> real_of_int x * 2 ^ nat (- (fl - 52))"
    using yr by (simp add: field_simps)
  then have "real_of_int (y * 2 ^ nat (fl - 52) * 2 ^ 52) \<le> real_of_int (x * 2 ^ nat (- (fl - 52)))"
    by simp
  then show ?thesis by (simp only: of_int_le_iff)
qed

lemma f64_div_ceil_exact:
  assumes "0 < x" and "x \<le> 2 ^ 53" and "0 < y"
  shows "f64_ceil (f64_div x y) = - ((- x) div y)"
proof -
  define d where "d = bitlen x - bitlen y"
  define e where "e = (if y * 2 ^ nat d \<le> x * 2 ^ nat (- d) then d else d - 1) - 52"
  have ex: "y * 2 ^ nat e * 2 ^ 52 \<le> x * 2 ^ nat (- e)"
    using f64_div_exponent [OF assms(1,3)] by (simp only: e_def d_def)
  have fd: "f64_div x y = (rne (x * 2 ^ nat (- e)) (y * 2 ^ nat e), e)"
    using assms(1) by (simp add: f64_div_def Let_def d_def e_def)
  define n where "n = - ((- x) div y)"
  define N where "N = n - 1"
  have Nx: "N * y < x" and xn: "x \<le> n * y"
    using ceil_div_bounds [OF assms(3), of x] by (simp_all add: n_def N_def)
  show ?thesis
  proof (cases "e < 0")
    case True
    define D :: int where "D = 2 ^ nat (- e)"
    have Dpos: "0 < D" by (simp add: D_def)
    from True obtain k where k: "nat (- e) = Suc k" by (cases "nat (- e)") simp_all
    have "D = 2 * 2 ^ k" by (simp add: D_def k)
    then have Deven: "even D" by simp
    from True have ex': "y * 2 ^ 52 \<le> x * D" using ex by (simp add: D_def)
    have "x * D \<le> 2 ^ 53 * D" using assms(2) Dpos by (intro mult_right_mono) simp_all
    with ex' have "y * 2 ^ 52 \<le> (2 * D) * 2 ^ 52" by simp
    then have y2D: "y \<le> 2 * D" by simp
    define m where "m = rne (x * D) y"
    have fc: "f64_ceil (f64_div x y) = - ((- m) div D)"
      using True by (simp add: fd f64_ceil_def m_def D_def)
    have "x * D \<le> (n * y) * D" using xn Dpos by (intro mult_right_mono) simp_all
    then have "x * D \<le> (n * D) * y" by (simp add: mult_ac)
    with assms(3) have up: "m \<le> n * D" unfolding m_def by (rule rne_upper)
    define g where "g = x - N * y"
    have g1: "1 \<le> g" using Nx by (simp add: g_def)
    have "y < 2 * D * g"
    proof (cases "y < 2 * D")
      case True
      have "2 * D * 1 \<le> 2 * D * g" using g1 Dpos by (intro mult_left_mono) simp_all
      with True show ?thesis by simp
    next
      case False
      with y2D have y: "y = 2 * D" by simp
      from ex' y have "D * 2 ^ 53 \<le> D * x" by (simp add: mult_ac)
      then have "2 ^ 53 \<le> x" using Dpos by simp
      with assms(2) have x: "x = 2 ^ 53" by simp
      have "g \<noteq> 1"
      proof
        assume "g = 1"
        then have "N * y = 2 ^ 53 - 1" using x by (simp add: g_def)
        moreover have "even (N * y)" using y by simp
        ultimately show False by simp
      qed
      with g1 have "2 \<le> g" by simp
      then have "2 * D * 2 \<le> 2 * D * g" using Dpos by (intro mult_left_mono) simp_all
      with y Dpos show ?thesis by simp
    qed
    also have "2 * D * g = 2 * (x * D - N * D * y)" by (simp add: g_def algebra_simps)
    finally have "y < 2 * (x * D - N * D * y)" .
    with assms(3) have "N * D + 1 \<le> m" unfolding m_def by (rule rne_lower)
    then have lo: "N * D < m" by simp
    from up have "m \<le> (N + 1) * D" by (simp add: N_def)
    with Dpos lo have "- ((- m) div D) = N + 1" by (rule ceil_div_unique)
    with fc show ?thesis by (simp add: N_def n_def)
  next
    case False
    define E :: int where "E = 2 ^ nat e"
    have Epos: "1 \<le> E" by (simp add: E_def)
    from False have ex': "y * E * 2 ^ 52 \<le> x" using ex by (simp add: E_def)
    define z where "z = y * E"
    have "z * 2 ^ 52 \<le> x" using ex' by (simp only: z_def)
    with assms(2) have "z \<le> 2" by simp
    then have yE: "y * E \<le> 2" by (simp only: z_def)
    have fc: "f64_ceil (f64_div x y) = rne x (y * E) * E"
      using False by (simp add: fd f64_ceil_def E_def)
    have "y * 1 \<le> y * E" using Epos assms(3) by (intro mult_left_mono) simp_all
    with yE have "y \<le> 2" by simp
    with assms(3) consider "y = 1" | "y = 2" by fastforce
    then have "rne x (y * E) * E = - ((- x) div y)"
    proof cases
      case 1
      with yE Epos consider "E = 1" | "E = 2" by fastforce
      then show ?thesis
      proof cases
        case 1
        with \<open>y = 1\<close> show ?thesis by (simp add: rne_def Let_def)
      next
        case 2
        with \<open>y = 1\<close> ex' assms(2) have "x = 2 ^ 53" by simp
        with \<open>y = 1\<close> 2 show ?thesis by (simp add: rne_def Let_def)
      qed
    next
      case 2
      with yE Epos have E: "E = 1" by simp
      with 2 ex' assms(2) have "x = 2 ^ 53" by simp
      with 2 E show ?thesis by (simp add: rne_def Let_def)
    qed
    with fc show ?thesis by (simp only:)
  qed
qed

lemma sint_int64_of_f64:
  assumes "0 \<le> v" and "v \<le> 2 ^ 53"
  shows "sint (int64_of_f64 v) = v"
proof -
  have "(2::int) ^ 53 < 2 ^ 63" by simp
  with assms have "- (2 ^ 63) \<le> v" and "v < 2 ^ 63" by linarith+
  then have "signed_take_bit 63 v = v" by (rule signed_take_bit_int_eq_self)
  then show ?thesis by (simp add: int64_of_f64_def sint_sbintrunc')
qed

lemma ceil_div_f64_exact:
  assumes "0 \<le> sint a" and "sint a \<le> 2 ^ 53" and "0 < sint b"
  shows "sint (ceil_div_f64 a b) = - ((- sint a) div sint b)"
proof (cases "sint a = 0")
  case True
  then have "f64_of_int (sint a) = 0" by (simp add: f64_of_int_def rne_def)
  then have "ceil_div_f64 a b = 0"
    by (simp add: ceil_div_f64_def f64_div_def f64_ceil_def int64_of_f64_def)
  with True show ?thesis by simp
next
  case False
  define x where "x = sint a"
  define y where "y = sint b"
  define fy where "fy = f64_of_int y"
  from False assms have x: "0 < x" "x \<le> 2 ^ 53" and y: "0 < y" by (simp_all add: x_def y_def)
  have fx: "f64_of_int x = x" using x by (intro f64_of_int_exact) simp_all
  have v: "f64_ceil (f64_div x fy) = - ((- x) div y)"
  proof (cases "y \<le> 2 ^ 53")
    case True
    with y have "fy = y" unfolding fy_def by (intro f64_of_int_exact) simp_all
    with f64_div_ceil_exact [OF x y] show ?thesis by simp
  next
    case False
    then have big: "2 ^ 53 \<le> y" by simp
    then have "2 ^ 53 \<le> fy" unfolding fy_def by (rule f64_of_int_large)
    with x have xfy: "x \<le> fy" and fypos: "0 < fy" by linarith+
    have "- ((- x) div fy) = 0 + 1"
      using fypos x(1) xfy by (intro ceil_div_unique) simp_all
    moreover have "- ((- x) div y) = 0 + 1"
      using y x(1) x(2) big by (intro ceil_div_unique) simp_all
    ultimately show ?thesis using f64_div_ceil_exact [OF x fypos] by simp
  qed
  define n where "n = - ((- x) div y)"
  have b1: "(n - 1) * y < x" and b2: "x \<le> n * y"
    using ceil_div_bounds [OF y, of x] by (simp_all add: n_def)
  have npos: "0 < n"
  proof (rule ccontr)
    assume "\<not> 0 < n"
    then have "n * y \<le> 0 * y" using y by (intro mult_right_mono) simp_all
    with b2 x(1) show False by simp
  qed
  have "(n - 1) * 1 \<le> (n - 1) * y" using npos y by (intro mult_left_mono) simp_all
  with b1 x(2) have "n \<le> 2 ^ 53" by simp
  with npos have "sint (int64_of_f64 n) = n" by (intro sint_int64_of_f64) simp_all
  then show ?thesis
    by (simp add: ceil_div_f64_def x_def [symmetric] y_def [symmetric] fx fy_def [symmetric] v
        n_def [symmetric])
qed

lemma ceiling_divide_of_int: "\<lceil>real_of_int x / real_of_int y\<rceil> = - ((- x) div y)"
proof -
  have "\<lceil>real_of_int x / real_of_int y\<rceil> = - \<lfloor>real_of_int (- x) / real_of_int y\<rfloor>"
    by (simp add: ceiling_def)
  then show ?thesis by (simp only: floor_divide_of_int_eq)
qed

text \<open>
  Where the code and the ceiling agree: for every OffsetPagination state with at most
  \<open>2 ^ 53\<close> records, after normalization \<open>CountPages\<close> is the ceiling of
  \<open>CountRecords\<close> divided by the page size; and for every state, \<open>CountPages\<close> is 0
  whenever \<open>CountRecords\<close> is 0.
\<close>

lemma CountPages_ceiling:
  assumes "sint (CountRecords p) \<le> 2 ^ 53"
  shows "sint (CountPages (normalize p))
           = \<lceil>real_of_int (sint (CountRecords (normalize p)))
               / real_of_int (sint (PerPage (normalize p)))\<rceil>
         \<and> (CountRecords (normalize p) = 0 \<longrightarrow> CountPages (normalize p) = 0)"
proof -
  have cr0: "0 \<le> sint (CountRecords (normalize p))"
    by (simp add: normalize_CountRecords word_sle_eq)
  have cr1: "sint (CountRecords (normalize p)) \<le> 2 ^ 53"
    using assms by (simp add: normalize_CountRecords)
  have pp: "0 < sint (PerPage (normalize p))"
    using normalize_PerPage_pos [of p] by (simp add: word_sle_eq)
  have "sint (CountPages (normalize p))
          = - ((- sint (CountRecords (normalize p))) div sint (PerPage (normalize p)))"
    using ceil_div_f64_exact [OF cr0 cr1 pp] by (simp only: normalize_CountPages)
  also have "\<dots> = \<lceil>real_of_int (sint (CountRecords (normalize p)))
                      / real_of_int (sint (PerPage (normalize p)))\<rceil>"
    by (rule ceiling_divide_of_int [symmetric])
  finally show ?thesis
    using normalize_CountPages_zero [of p] by blast
qed

lemma CountPages_ceiling_example:
  "sint (CountRecords (zero_OffsetPagination\<lparr>CountRecords := 45\<rparr>)) \<le> 2 ^ 53
   \<and> PerPage (normalize (zero_OffsetPagination\<lparr>CountRecords := 45\<rparr>)) = 20
   \<and> sint (CountPages (normalize (zero_OffsetPagination\<lparr>CountRecords := 45\<rparr>))) = 3"
proof -
  let ?p = "zero_OffsetPagination\<lparr>CountRecords := 45\<rparr>"
  have le: "sint (CountRecords ?p) \<le> 2 ^ 53" by simp
  have cr: "CountRecords (normalize ?p) = 45"
    by (simp add: normalize_CountRecords word_sle_eq)
  have pp: "PerPage (normalize ?p) = 20"
    by (simp add: normalize_PerPage normalize_defaultPerPage zero_OffsetPagination_def)
  have "sint (CountPages (normalize ?p))
          = \<lceil>real_of_int (sint (45 :: int64)) / real_of_int (sint (20 :: int64))\<rceil>"
    using CountPages_ceiling [OF le] by (simp only: cr pp)
  also have "\<dots> = 3" by simp
  finally show ?thesis using le pp by blast
qed

text \<open>
  Claim C6. After normalization \<open>CountPages\<close> is said to be the ceiling of
  \<open>CountRecords\<close> divided by the page size, for every state. \<open>normalize\<close> takes the
  ceiling of a quotient of doubles: with \<open>2 ^ 53 + 1\<close> records and a page size of 1
  the conversion to \<open>float64\<close> rounds the record count to \<open>2 ^ 53\<close>, and
  \<open>CountPages\<close> is \<open>2 ^ 53\<close>, one less than the ceiling.
\<close>

theorem CountPages_float_rounding:
  "CountRecords (SetCountRecords 9007199254740993 (zero_OffsetPagination\<lparr>PerPage := 1\<rparr>))
     = 9007199254740993
   \<and> PerPage (SetCountRecords 9007199254740993 (zero_OffsetPagination\<lparr>PerPage := 1\<rparr>)) = 1
   \<and> CountPages (SetCountRecords 9007199254740993 (zero_OffsetPagination\<lparr>PerPage := 1\<rparr>))
     = 9007199254740992
   \<and> sint (CountPages (SetCountRecords 9007199254740993 (zero_OffsetPagination\<lparr>PerPage := 1\<rparr>)))
     \<noteq> \<lceil>real_of_int (sint (CountRecords
            (SetCountRecords 9007199254740993 (zero_OffsetPagination\<lparr>PerPage := 1\<rparr>))))
        / real_of_int (sint (PerPage
            (SetCountRecords 9007199254740993 (zero_OffsetPagination\<lparr>PerPage := 1\<rparr>))))\<rceil>"
proof -
  let ?s = "SetCountRecords 9007199254740993 (zero_OffsetPagination\<lparr>PerPage := 1\<rparr>)"
  have cr: "CountRecords ?s = 9007199254740993" and pp: "PerPage ?s = 1"
    and cp: "CountPages ?s = 9007199254740992"
    by code_simp+
  have "\<lceil>real_of_int (sint (9007199254740993 :: int64)) / real_of_int (sint (1 :: int64))\<rceil>
          = - ((- sint (9007199254740993 :: int64)) div sint (1 :: int64))"
    by (rule ceiling_divide_of_int)
  also have "\<dots> = 9007199254740993" by simp
  finally have c: "\<lceil>real_of_int (sint (9007199254740993 :: int64)) / real_of_int (sint (1 :: int64))\<rceil>
          = 9007199254740993" .
  have s: "sint (9007199254740992 :: int64) = 9007199254740992" by simp
  have ne: "sint (9007199254740992 :: int64)
          \<noteq> \<lceil>real_of_int (sint (9007199254740993 :: int64)) / real_of_int (sint (1 :: int64))\<rceil>"
    unfolding c s by simp
  have "sint (CountPages ?s)
          \<noteq> \<lceil>real_of_int (sint (CountRecords ?s)) / real_of_int (sint (PerPage ?s))\<rceil>"
    unfolding cr pp cp by (rule ne)
  with cr pp cp show ?thesis by blast
qed

subsection \<open>OffsetPagination: accessors\<close>

text \<open>
  Claim C7. For every OffsetPagination state, whatever page or page size were written
  into it, \<open>Offset()\<close> equals \<open>(CurrentPage() - 1) * PageSize()\<close>: each accessor
  normalizes first. This holds for the three accessors called on the same state and for
  the three called one after the other, each on the state the previous one left.
\<close>

theorem Offset_eq_CurrentPage_PageSize:
  "snd (OffsetPagination_Offset p) = (snd (CurrentPage p) - 1) * snd (PageSize p)
   \<and> (case OffsetPagination_Offset p of (p1, off) \<Rightarrow>
        case CurrentPage p1 of (p2, cur) \<Rightarrow>
        case PageSize p2 of (p3, sz) \<Rightarrow> off = (cur - 1) * sz)"
  by (simp add: OffsetPagination_Offset_def CurrentPage_def PageSize_def Let_def normalize_idem)

text \<open>
  Claim C8. Calling an accessor (\<open>Limit\<close>, \<open>Offset\<close>, \<open>CurrentPage\<close>, \<open>PageSize\<close>)
  a second time, on the state the first call left, returns the same result and leaves
  the same state: normalization applied to a normalized state changes nothing.
\<close>

theorem accessors_idempotent:
  "normalize (normalize p) = normalize p
   \<and> OffsetPagination_Limit (fst (OffsetPagination_Limit p)) = OffsetPagination_Limit p
   \<and> OffsetPagination_Offset (fst (OffsetPagination_Offset p)) = OffsetPagination_Offset p
   \<and> CurrentPage (fst (CurrentPage p)) = CurrentPage p
   \<and> PageSize (fst (PageSize p)) = PageSize p"
  by (simp add: normalize_idem OffsetPagination_Limit_def OffsetPagination_Offset_def
      CurrentPage_def PageSize_def Let_def)

section \<open>Properties of the Link header\<close>

lemma has_rel_link:
  "has_rel ''first'' (link u pg ''first'')" "\<not> has_rel ''first'' (link u pg ''prev'')"
  "\<not> has_rel ''first'' (link u pg ''next'')" "\<not> has_rel ''first'' (link u pg ''last'')"
  "\<not> has_rel ''prev'' (link u pg ''first'')" "has_rel ''prev'' (link u pg ''prev'')"
  "\<not> has_rel ''prev'' (link u pg ''next'')" "\<not> has_rel ''prev'' (link u pg ''last'')"
  "\<not> has_rel ''next'' (link u pg ''first'')" "\<not> has_rel ''next'' (link u pg ''prev'')"
  "has_rel ''next'' (link u pg ''next'')" "\<not> has_rel ''next'' (link u pg ''last'')"
  "\<not> has_rel ''last'' (link u pg ''first'')" "\<not> has_rel ''last'' (link u pg ''prev'')"
  "\<not> has_rel ''last'' (link u pg ''next'')" "has_rel ''last'' (link u pg ''last'')"
  by (simp_all add: has_rel_def link_def suffix_to_prefix)

lemma FormatInt_1: "FormatInt 1 = ''1''"
  by code_simp

text \<open>The header of the specification's example: page 2 of 5.\<close>

lemma LinkHeader_page_2_of_5:
  "LinkHeader \<lparr>Page = 2, PerPage = 20, CountPages = 5, CountRecords = 90, defaultPerPage = 20\<rparr>
              \<lparr>Path = ''/users'', Query = [(''q'', [''a b''])]\<rparr>
   = ''</users?page=1&q=a+b>; rel='' @ [CHR 0x22] @ ''first'' @ [CHR 0x22] @ '', '' @
     ''</users?page=1&q=a+b>; rel='' @ [CHR 0x22] @ ''prev'' @ [CHR 0x22] @ '', '' @
     ''</users?page=3&q=a+b>; rel='' @ [CHR 0x22] @ ''next'' @ [CHR 0x22] @ '', '' @
     ''</users?page=5&q=a+b>; rel='' @ [CHR 0x22] @ ''last'' @ [CHR 0x22]"
  by code_simp

text \<open>
  Claim C4. For every OffsetPagination state and every URL, the entries of the Link
  header are these: exactly one with \<open>rel="first"\<close>, for page 1; exactly one with
  \<open>rel="last"\<close>, for page \<open>CountPages\<close>; one with \<open>rel="prev"\<close>, for page
  \<open>Page - 1\<close>, if \<open>Page > 1\<close>, and none otherwise; one with \<open>rel="next"\<close>, for page
  \<open>Page + 1\<close>, if \<open>Page + 1 < CountPages\<close> (strictly), and none otherwise. The
  arithmetic and the comparisons are those of \<open>int64\<close>. The header is the entries joined
  by a comma and a space.
\<close>

theorem LinkHeader_relations:
  "filter (has_rel ''first'') (linkHeaders p u) = [link u (FormatInt 1) ''first'']
   \<and> filter (has_rel ''last'') (linkHeaders p u) = [link u (FormatInt (CountPages p)) ''last'']
   \<and> filter (has_rel ''prev'') (linkHeaders p u) =
        (if 1 <s Page p then [link u (FormatInt (Page p - 1)) ''prev''] else [])
   \<and> filter (has_rel ''next'') (linkHeaders p u) =
        (if Page p + 1 <s CountPages p then [link u (FormatInt (Page p + 1)) ''next''] else [])
   \<and> LinkHeader p u = Join (linkHeaders p u) '', ''"
  by (simp add: linkHeaders_def has_rel_link FormatInt_1 LinkHeader_def)

section \<open>Properties of the list options\<close>

lemma IsSorting_not_IsPagination: "IsSortingOption opt \<Longrightarrow> \<not> IsPaginationOption opt"
  by (cases opt) simp_all

lemma categorize_filter:
  "categorize opts (f, p, s) =
     (f @ filter (\<lambda>opt. \<not> IsPaginationOption opt \<and> \<not> IsSortingOption opt) opts,
      p @ filter IsPaginationOption opts,
      s @ filter IsSortingOption opts)"
  by (induction opts arbitrary: f p s) (auto dest: IsSorting_not_IsPagination)

lemma CategorizedListOptions_filter:
  "CategorizedListOptions opts =
     (filter (\<lambda>opt. \<not> IsPaginationOption opt \<and> \<not> IsSortingOption opt) opts,
      filter IsPaginationOption opts,
      filter IsSortingOption opts)"
  by (simp add: CategorizedListOptions_def categorize_filter)

lemma partition_lengths:
  "length (filter (\<lambda>opt. \<not> IsPaginationOption opt \<and> \<not> IsSortingOption opt) opts)
     + length (filter IsPaginationOption opts) + length (filter IsSortingOption opts)
   = length opts"
  by (induction opts) (auto dest: IsSorting_not_IsPagination)

text \<open>Options other than the paging option neither read nor write the store.\<close>

lemma Apply_not_paging:
  assumes "\<not> IsPaginationOption opt"
  shows "snd (Apply opt sb h) = h" and "fst (Apply opt sb h) = fst (Apply opt sb h')"
  using assms by (cases opt; simp)+

lemma ApplyAll_not_paging:
  assumes "\<forall>opt \<in> set opts. \<not> IsPaginationOption opt"
  shows "snd (ApplyAll opts sb h) = h \<and> fst (ApplyAll opts sb h) = fst (ApplyAll opts sb h')"
  using assms
proof (induction opts arbitrary: sb)
  case Nil
  then show ?case by simp
next
  case (Cons opt opts)
  obtain sb1 where 1: "Apply opt sb h = (sb1, h)"
    using Apply_not_paging(1) [of opt sb h] Cons.prems by (cases "Apply opt sb h") simp
  obtain sb2 where 2: "Apply opt sb h' = (sb2, h')"
    using Apply_not_paging(1) [of opt sb h'] Cons.prems by (cases "Apply opt sb h'") simp
  have "sb1 = sb2"
    using Apply_not_paging(2) [of opt sb h h'] Cons.prems 1 2 by simp
  with 1 2 Cons show ?case by simp
qed

lemma sorting_not_paging: "\<forall>opt \<in> set (filter IsSortingOption opts). \<not> IsPaginationOption opt"
  by (auto dest: IsSorting_not_IsPagination)

lemma Apply_paging:
  "Apply (withOffsetPaginationOption a) sb h =
     (SelectBuilder_Offset ((Page (normalize (objs h a)) - 1) * PerPage (normalize (objs h a)))
        (SelectBuilder_Limit (PerPage (normalize (objs h a))) sb),
      store a (normalize (objs h a)) h)"
  by (simp add: OffsetPagination_Limit_def OffsetPagination_Offset_def Let_def normalize_idem)

text \<open>
  Claim C9. The paging option built from a pagination value holds a copy made when the
  option is built: whatever is written afterwards into the caller's value (\<open>v\<close> is the
  state the writes leave there), applying the option yields the same statement, whose
  \<open>LIMIT\<close> and \<open>OFFSET\<close> are those of the value as it was when the option was built.
\<close>

theorem paging_option_snapshot:
  assumes "pagination < top h" and "WithOffsetPagination pagination h = (opt, h1)"
  shows "fst (Apply opt sb (store pagination v h1)) = fst (Apply opt sb h1)
       \<and> Limit (fst (Apply opt sb (store pagination v h1)))
           = FormatUint (unat (PerPage (normalize (objs h pagination))))
       \<and> Offset (fst (Apply opt sb (store pagination v h1)))
           = FormatUint (unat ((Page (normalize (objs h pagination)) - 1)
                                * PerPage (normalize (objs h pagination))))"
proof -
  from assms(2) have opt: "opt = withOffsetPaginationOption (top h)"
    and h1: "h1 = h\<lparr>objs := (objs h)(top h := objs h pagination), top := Suc (top h)\<rparr>"
    by (auto simp add: WithOffsetPagination_def new_def)
  from assms(1) have ne: "top h \<noteq> pagination" by simp
  have "objs (store pagination v h1) (top h) = objs h pagination"
    and "objs h1 (top h) = objs h pagination"
    using ne by (simp_all add: h1 store_def)
  then show ?thesis
    by (simp add: opt Apply_paging SelectBuilder_Offset_def SelectBuilder_Limit_def
        del: Apply.simps)
qed

theorem paging_option_snapshot_witness:
  "(0::addr) < top example_heap
   \<and> WithOffsetPagination 0 example_heap
       = (withOffsetPaginationOption 1 :: int ListOption, snd (new (objs example_heap 0) example_heap))
   \<and> Limit (fst (Apply (withOffsetPaginationOption 1) users_query
               (store 0 ((objs example_heap 0)\<lparr>Page := 3, PerPage := 50\<rparr>)
                  (snd (new (objs example_heap 0) example_heap))))) = ''20''
   \<and> Offset (fst (Apply (withOffsetPaginationOption 1) users_query
               (store 0 ((objs example_heap 0)\<lparr>Page := 3, PerPage := 50\<rparr>)
                  (snd (new (objs example_heap 0) example_heap))))) = ''180''"
proof -
  have a: "(0::addr) < top example_heap"
    by (simp add: example_heap_def)
  have b: "WithOffsetPagination 0 example_heap
       = (withOffsetPaginationOption 1 :: int ListOption, snd (new (objs example_heap 0) example_heap))"
    by (simp add: WithOffsetPagination_def new_def example_heap_def)
  have c: "FormatUint (unat (PerPage (normalize (objs example_heap 0)))) = ''20''"
    by code_simp
  have d: "FormatUint (unat ((Page (normalize (objs example_heap 0)) - 1)
                                * PerPage (normalize (objs example_heap 0)))) = ''180''"
    by code_simp
  note snapshot = paging_option_snapshot [OF a b, of users_query
      "(objs example_heap 0)\<lparr>Page := 3, PerPage := 50\<rparr>", unfolded c d]
  from a b snapshot show ?thesis by blast
qed

section \<open>Properties of the count statement\<close>

lemma extends_Nil [simp]: "extends ([], []) r = r"
  by (simp add: extends_def split: sum.splits)

lemma extends_extends:
  "extends acc (extends (t, b) r) = extends (fst acc @ t, snd acc @ b) r"
  by (simp add: extends_def split: sum.splits)

lemma appendToSql_from_extends:
  "appendToSql_from i parts sep acc = extends acc (appendToSql_from i parts sep ([], []))"
proof (induction parts arbitrary: i acc)
  case Nil
  then show ?case by (simp add: extends_def)
next
  case (Cons p parts)
  show ?case
  proof (cases p)
    case (Inl err)
    then show ?thesis by (simp add: extends_def)
  next
    case (Inr r)
    obtain partSql partArgs where r: "r = (partSql, partArgs)" by (cases r)
    show ?thesis
    proof (cases "partSql = []")
      case True
      with Inr r Cons.IH [of "Suc i" acc] show ?thesis by simp
    next
      case False
      let ?x = "((if 0 < i then sep else []) @ partSql, partArgs)"
      have "appendToSql_from i (p # parts) sep acc
              = appendToSql_from (Suc i) parts sep (fst acc @ fst ?x, snd acc @ snd ?x)"
        using Inr r False by simp
      also have "\<dots> = extends (fst acc @ fst ?x, snd acc @ snd ?x) (appendToSql_from (Suc i) parts sep ([], []))"
        by (rule Cons.IH)
      also have "\<dots> = extends acc (extends ?x (appendToSql_from (Suc i) parts sep ([], [])))"
        by (simp add: extends_extends)
      also have "extends ?x (appendToSql_from (Suc i) parts sep ([], [])) = appendToSql_from (Suc i) parts sep ?x"
        by (rule Cons.IH [symmetric])
      also have "appendToSql_from (Suc i) parts sep ?x = appendToSql_from i (p # parts) sep ([], [])"
        using Inr r False by simp
      finally show ?thesis .
    qed
  qed
qed

lemma appending_appendToSql: "appending (appendToSql parts sep)"
  unfolding appending_def appendToSql_def by (rule allI) (rule appendToSql_from_extends)

lemma appendingD: "appending g \<Longrightarrow> g acc = extends acc (g ([], []))"
  unfolding appending_def by blast

lemma appending_andThen:
  assumes "appending g" and "appending k"
  shows "appending (andThen g k)"
  unfolding appending_def
proof
  fix acc
  have g: "g acc = extends acc (g ([], []))" using assms(1) by (rule appendingD)
  show "andThen g k acc = extends acc (andThen g k ([], []))"
  proof (cases "g ([], [])")
    case (Inl err)
    with g show ?thesis by (simp add: andThen_def extends_def)
  next
    case (Inr r)
    obtain t b where r: "r = (t, b)" by (cases r)
    have "k (fst acc @ t, snd acc @ b) = extends (fst acc @ t, snd acc @ b) (k ([], []))"
      using assms(2) by (rule appendingD)
    moreover have "k (t, b) = extends (t, b) (k ([], []))"
      using assms(2) by (rule appendingD)
    ultimately show ?thesis
      using g Inr r by (simp add: andThen_def extends_def extends_extends split: sum.splits)
  qed
qed

lemma appending_writeText: "appending (writeText present s)"
  by (simp add: appending_def writeText_def extends_def writeString_def)

lemma appending_writeClause: "appending (writeClause kw parts sep)"
proof -
  have "appending (andThen (writeText True kw) (appendToSql parts sep))"
    by (intro appending_andThen appending_writeText appending_appendToSql)
  moreover have "writeClause kw parts sep = (if parts = [] then Inr else andThen (writeText True kw) (appendToSql parts sep))"
    by (auto simp add: writeClause_def andThen_def writeText_def fun_eq_iff)
  moreover have "appending (Inr :: 'a rendering \<Rightarrow> error + 'a rendering)"
    by (simp add: appending_def extends_def)
  ultimately show ?thesis by simp
qed

lemma appending_writePrefixes: "appending (writePrefixes parts)"
proof -
  have "appending (andThen (appendToSql parts '' '') (writeText True '' ''))"
    by (intro appending_andThen appending_writeText appending_appendToSql)
  moreover have "writePrefixes parts = (if parts = [] then Inr else andThen (appendToSql parts '' '') (writeText True '' ''))"
    by (auto simp add: writePrefixes_def andThen_def writeText_def fun_eq_iff split: sum.splits)
  moreover have "appending (Inr :: 'a rendering \<Rightarrow> error + 'a rendering)"
    by (simp add: appending_def extends_def)
  ultimately show ?thesis by simp
qed

lemma appending_selectHead: "appending (selectHead d)"
  unfolding selectHead_def
  by (intro appending_andThen appending_writeText appending_writePrefixes)

lemma appending_selectTail: "appending (selectTail d)"
  unfolding selectTail_def
  by (intro appending_andThen appending_writeText appending_writeClause)

lemma selectHead_Columns: "selectHead (d\<lparr>Columns := cs\<rparr>) = selectHead d"
  by (simp add: selectHead_def)

lemma selectTail_Columns: "selectTail (d\<lparr>Columns := cs\<rparr>) = selectTail d"
  by (simp add: selectTail_def)

lemma toCountQuery_Columns:
  "toCountQuery query = query\<lparr>Columns := [Inr (''COUNT(*)'', [])]\<rparr>"
  by (simp add: toCountQuery_def builder_Delete_Columns_def SelectBuilder_Columns_def newPart_def)

lemma toSqlRaw_stages:
  assumes "Columns d \<noteq> []"
  shows "toSqlRaw d =
     (case selectHead d ([], []) of Inl err \<Rightarrow> Inl err | Inr (h, ha) \<Rightarrow>
      case appendToSql (Columns d) '', '' ([], []) of Inl err \<Rightarrow> Inl err | Inr (cs, ca) \<Rightarrow>
      case selectTail d ([], []) of Inl err \<Rightarrow> Inl err | Inr (t, ta) \<Rightarrow>
        Inr (h @ cs @ t, ha @ ca @ ta))"
proof (cases "selectHead d ([], [])")
  case (Inl err)
  with assms show ?thesis by (simp add: toSqlRaw_def andThen_def)
next
  case (Inr r)
  obtain h ha where r: "r = (h, ha)" by (cases r)
  have c: "appendToSql (Columns d) '', '' (h, ha) = extends (h, ha) (appendToSql (Columns d) '', '' ([], []))"
    using appending_appendToSql by (rule appendingD)
  show ?thesis
  proof (cases "appendToSql (Columns d) '', '' ([], [])")
    case (Inl err)
    with assms Inr r c show ?thesis by (simp add: toSqlRaw_def andThen_def extends_def)
  next
    case (Inr r')
    obtain cs ca where r': "r' = (cs, ca)" by (cases r')
    have tt: "selectTail d (h @ cs, ha @ ca) = extends (h @ cs, ha @ ca) (selectTail d ([], []))"
      using appending_selectTail by (rule appendingD)
    from assms \<open>selectHead d ([], []) = Inr r\<close> r c Inr r' tt show ?thesis
      by (simp add: toSqlRaw_def andThen_def extends_def split: sum.splits)
  qed
qed

lemma appendToSql_count: "appendToSql [Inr (''COUNT(*)'', [])] sep ([], []) = Inr (''COUNT(*)'', [])"
  by (simp add: appendToSql_def)

lemma ToSql_Inr:
  "ToSql d = Inr (s, as) \<longleftrightarrow> (\<exists>raw. toSqlRaw d = Inr (raw, as) \<and> PlaceholderFormat d raw = Inr s)"
  by (auto simp add: ToSql_def split: sum.splits)

text \<open>
  Claim C2, as amended. For every select statement that renders, the count statement is
  the statement with its result columns replaced by the single column \<open>COUNT(*)\<close>, every
  other clause being kept; statements that differ in their result columns only have the
  same count statement. Before the placeholders are formatted, the text of the count
  statement is the text of the statement with \<open>COUNT(*)\<close> in the place of the rendered
  columns, and its arguments are those of the statement without the arguments that the
  result columns bind: the same list when the columns bind none.
\<close>

theorem toCountQuery_rendering:
  assumes "ToSql query = Inr (sql, args)"
  shows "\<exists>head cols tail headArgs colArgs tailArgs.
           toSqlRaw query = Inr (head @ cols @ tail, args)
         \<and> PlaceholderFormat query (head @ cols @ tail) = Inr sql
         \<and> appendToSql (Columns query) '', '' ([], []) = Inr (cols, colArgs)
         \<and> args = headArgs @ colArgs @ tailArgs
         \<and> toSqlRaw (toCountQuery query) = Inr (head @ ''COUNT(*)'' @ tail, headArgs @ tailArgs)
         \<and> (\<forall>sql' args'. ToSql (toCountQuery query) = Inr (sql', args') \<longrightarrow>
               args' = headArgs @ tailArgs
               \<and> PlaceholderFormat query (head @ ''COUNT(*)'' @ tail) = Inr sql')
         \<and> toCountQuery query = query\<lparr>Columns := [Inr (''COUNT(*)'', [])]\<rparr>
         \<and> (\<forall>columns. toCountQuery (query\<lparr>Columns := columns\<rparr>) = toCountQuery query)"
proof -
  from assms obtain raw where raw: "toSqlRaw query = Inr (raw, args)"
    and pf: "PlaceholderFormat query raw = Inr sql"
    by (auto simp add: ToSql_Inr)
  have ne: "Columns query \<noteq> []"
    using raw by (auto simp add: toSqlRaw_def)
  from raw obtain head headArgs cols colArgs tail tailArgs where
    h: "selectHead query ([], []) = Inr (head, headArgs)"
    and c: "appendToSql (Columns query) '', '' ([], []) = Inr (cols, colArgs)"
    and t: "selectTail query ([], []) = Inr (tail, tailArgs)"
    and r: "raw = head @ cols @ tail" and a: "args = headArgs @ colArgs @ tailArgs"
    by (auto simp add: toSqlRaw_stages [OF ne] split: sum.splits)
  have cnt: "toSqlRaw (toCountQuery query) = Inr (head @ ''COUNT(*)'' @ tail, headArgs @ tailArgs)"
    by (simp add: toCountQuery_Columns toSqlRaw_stages selectHead_Columns selectTail_Columns h t
        appendToSql_count)
  have "\<forall>sql' args'. ToSql (toCountQuery query) = Inr (sql', args') \<longrightarrow>
               args' = headArgs @ tailArgs
               \<and> PlaceholderFormat query (head @ ''COUNT(*)'' @ tail) = Inr sql'"
    using cnt by (auto simp add: ToSql_Inr toCountQuery_Columns)
  moreover have "\<forall>columns. toCountQuery (query\<lparr>Columns := columns\<rparr>) = toCountQuery query"
    by (simp add: toCountQuery_Columns)
  ultimately show ?thesis
    using raw pf c r a cnt toCountQuery_Columns [of query] by blast
qed

theorem toCountQuery_rendering_witness:
  "ToSql (where_id users_query) = Inr (''SELECT * FROM users WHERE id = ?'', [7])
   \<and> (\<exists>head cols tail headArgs colArgs tailArgs.
           toSqlRaw (where_id users_query) = Inr (head @ cols @ tail, [7])
         \<and> appendToSql (Columns (where_id users_query)) '', '' ([], []) = Inr (cols, colArgs)
         \<and> [7] = headArgs @ colArgs @ tailArgs
         \<and> toSqlRaw (toCountQuery (where_id users_query))
             = Inr (head @ ''COUNT(*)'' @ tail, headArgs @ tailArgs))"
proof -
  have r: "ToSql (where_id users_query) = Inr (''SELECT * FROM users WHERE id = ?'', [7])"
    by code_simp
  from toCountQuery_rendering [OF r] obtain head cols tail headArgs colArgs tailArgs where
    "toSqlRaw (where_id users_query) = Inr (head @ cols @ tail, [7])"
    "appendToSql (Columns (where_id users_query)) '', '' ([], []) = Inr (cols, colArgs)"
    "[7] = headArgs @ colArgs @ tailArgs"
    "toSqlRaw (toCountQuery (where_id users_query))
             = Inr (head @ ''COUNT(*)'' @ tail, headArgs @ tailArgs)"
    by (elim exE conjE)
  with r show ?thesis by (intro conjI exI)
qed

text \<open>
  Claim C2, as stated, fails for a result column that binds an argument: the statement
  \<open>Select().Column("? AS one", 1).From("users").Where("id = ?", 2)\<close> renders with the
  arguments 1 and 2, its count statement with the argument 2 only.
\<close>

theorem toCountQuery_drops_column_arguments:
  "ToSql column_arg_query = Inr (''SELECT ? AS one FROM users WHERE id = ?'', [1, 2])
   \<and> ToSql (toCountQuery column_arg_query)
       = Inr (''SELECT COUNT(*) FROM users WHERE id = ?'', [2])
   \<and> snd (projr (ToSql (toCountQuery column_arg_query))) \<noteq> snd (projr (ToSql column_arg_query))"
  by code_simp

section \<open>Properties of List\<close>

lemma defaultPaging_nonempty: "pagingOpts \<noteq> [] \<Longrightarrow> defaultPaging pagingOpts h = (pagingOpts, h)"
  by (simp add: defaultPaging_def)

lemma defaultPaging_single:
  assumes "length ps \<le> 1" and "\<forall>opt \<in> set ps. IsPaginationOption opt"
  shows "\<exists>a h1. defaultPaging ps h = ([withOffsetPaginationOption a], h1)"
proof (cases ps)
  case Nil
  then show ?thesis
    by (simp add: defaultPaging_def WithOffsetPagination_def new_def)
next
  case (Cons opt ps')
  with assms have "ps' = []" and "IsPaginationOption opt" by simp_all
  then obtain a where "opt = withOffsetPaginationOption a" by (cases opt) simp_all
  with Cons \<open>ps' = []\<close> show ?thesis by (simp add: defaultPaging_def)
qed

text \<open>
  Claim C3. With more than one paging option in the option list, \<open>List\<close> returns the
  configuration error and the destination as it was given, with no pagination; no
  statement is assembled, nothing goes to the database, and the store is unchanged.
\<close>

theorem List_two_paging_options:
  assumes "1 < length (filter IsPaginationOption opts)"
  shows "List db vs query opts h =
           ((vs, None, Some (Err ''only one pagination option is allowed'')), h, [])"
proof -
  from assms have ne: "filter IsPaginationOption opts \<noteq> []" by auto
  show ?thesis
    using assms by (simp add: List_def CategorizedListOptions_filter defaultPaging_nonempty [OF ne])
qed

theorem List_two_paging_options_witness:
  "1 < length (filter IsPaginationOption
         [withOffsetPaginationOption 0, ListOptionFunc where_id, withOffsetPaginationOption 0])
   \<and> List example_db [] users_query
        [withOffsetPaginationOption 0, ListOptionFunc where_id, withOffsetPaginationOption 0]
        example_heap
      = (([], None, Some (Err ''only one pagination option is allowed'')), example_heap, [])"
proof -
  have two: "1 < length (filter IsPaginationOption
         [withOffsetPaginationOption 0, ListOptionFunc where_id :: int ListOption,
          withOffsetPaginationOption 0])"
    by simp
  from two List_two_paging_options [OF two, of example_db "[]" users_query example_heap]
  show ?thesis by blast
qed

text \<open>
  Claim C1. Let the option list hold at most one paging option, \<open>a\<close> being the address
  of its pagination (or of the default one), and let the count statement be assembled
  and executed, returning \<open>tot\<close>; \<open>pg\<close> is the pagination after \<open>SetCountRecords\<close>. If
  \<open>tot\<close> is zero, or the page of \<open>pg\<close> exceeds its total pages, then \<open>List\<close> returns
  the destination as it was given and the pointer to the pagination, now in the
  normalized state \<open>pg\<close>, without error; the steps taken are the assembly and the
  execution of the count statement, and nothing else.
\<close>

theorem List_short_circuit:
  assumes "defaultPaging (filter IsPaginationOption opts) h = ([withOffsetPaginationOption a], h1)"
    and "ApplyAll (filter (\<lambda>opt. \<not> IsPaginationOption opt \<and> \<not> IsSortingOption opt) opts) query h1
           = (query1, h2)"
    and "ToSql (toCountQuery query1) = Inr (sqlstr, args)"
    and "QueryRow db sqlstr args = Inr tot"
    and "pg = SetCountRecords tot (objs h2 a)"
    and "tot = 0 \<or> CountPages pg <s Page pg"
  shows "List db vs query opts h =
           ((vs, Some a, None), store a pg h2,
            [Assembled (Inr (sqlstr, args)), QueryRowCall sqlstr args])
         \<and> normalize pg = pg"
proof -
  have cr: "tot = 0 \<Longrightarrow> CountRecords pg = 0"
    using assms(5) by (simp add: SetCountRecords_def normalize_CountRecords)
  have "normalize pg = pg"
    using assms(5) by (simp add: SetCountRecords_def normalize_idem)
  moreover have "List db vs query opts h =
           ((vs, Some a, None), store a pg h2,
            [Assembled (Inr (sqlstr, args)), QueryRowCall sqlstr args])"
    using assms(6) cr
    by (auto simp add: List_def CategorizedListOptions_filter assms(1-4) assms(5) [symmetric]
        Let_def store_def)
  ultimately show ?thesis by simp
qed

text \<open>The specification's scenario: page 10 requested, 45 records, 20 on a page.\<close>

theorem List_short_circuit_witness:
  "List example_db [] users_query [ListOptionFunc where_id, withOffsetPaginationOption 0] example_heap
     = (([], Some 0, None),
        store 0 (SetCountRecords 45 (objs example_heap 0)) example_heap,
        [Assembled (Inr (''SELECT COUNT(*) FROM users WHERE id = ?'', [7])),
         QueryRowCall ''SELECT COUNT(*) FROM users WHERE id = ?'' [7]])
   \<and> Page (SetCountRecords 45 (objs example_heap 0)) = 10
   \<and> CountPages (SetCountRecords 45 (objs example_heap 0)) = 3"
proof -
  let ?opts = "[ListOptionFunc where_id, withOffsetPaginationOption 0] :: int ListOption list"
  have 1: "defaultPaging (filter IsPaginationOption ?opts) example_heap
             = ([withOffsetPaginationOption 0], example_heap)"
    by (simp add: defaultPaging_def)
  have 2: "ApplyAll (filter (\<lambda>opt. \<not> IsPaginationOption opt \<and> \<not> IsSortingOption opt) ?opts)
             users_query example_heap = (where_id users_query, example_heap)"
    by simp
  have 3: "ToSql (toCountQuery (where_id users_query))
             = Inr (''SELECT COUNT(*) FROM users WHERE id = ?'', [7])"
    by code_simp
  have 4: "QueryRow example_db ''SELECT COUNT(*) FROM users WHERE id = ?'' [7] = Inr 45"
    by (simp add: example_db_def)
  have p: "Page (SetCountRecords 45 (objs example_heap 0)) = 10"
    and c: "CountPages (SetCountRecords 45 (objs example_heap 0)) = 3"
    by code_simp+
  have 6: "(45::int64) = 0
           \<or> CountPages (SetCountRecords 45 (objs example_heap 0))
               <s Page (SetCountRecords 45 (objs example_heap 0))"
    by (simp add: p c word_sless_alt)
  from List_short_circuit [OF 1 2 3 4 refl 6, of "[]"] p c
  show ?thesis by blast
qed

lemma List_first_steps:
  assumes "length (filter IsPaginationOption opts) \<le> 1"
    and "query1 = fst (ApplyAll (filter (\<lambda>opt. \<not> IsPaginationOption opt \<and> \<not> IsSortingOption opt) opts) query h)"
  shows "\<exists>res h' evs.
           List db vs query opts h = (res, h', Assembled (ToSql (toCountQuery query1)) # evs)
           \<and> (\<forall>sqlstr args. ToSql (toCountQuery query1) = Inr (sqlstr, args) \<longrightarrow>
                  (\<exists>evs'. evs = QueryRowCall sqlstr args # evs'))"
proof -
  let ?fs = "filter (\<lambda>opt. \<not> IsPaginationOption opt \<and> \<not> IsSortingOption opt) opts"
  obtain a h1 where dp:
    "defaultPaging (filter IsPaginationOption opts) h = ([withOffsetPaginationOption a], h1)"
    using defaultPaging_single [OF assms(1), of h] by auto
  have np: "\<forall>opt \<in> set ?fs. \<not> IsPaginationOption opt" by simp
  have ap: "ApplyAll ?fs query h1 = (query1, h1)"
    using ApplyAll_not_paging [OF np, of query h1 h] assms(2)
    by (cases "ApplyAll ?fs query h1") simp
  show ?thesis
    by (auto simp add: List_def CategorizedListOptions_filter dp ap Let_def
             split: sum.splits prod.splits)
qed

lemma List_reported_total:
  assumes "length (filter IsPaginationOption opts) \<le> 1"
    and "query1 = fst (ApplyAll (filter (\<lambda>opt. \<not> IsPaginationOption opt \<and> \<not> IsSortingOption opt) opts) query h)"
    and "ToSql (toCountQuery query1) = Inr (sqlstr, args)"
    and "QueryRow db sqlstr args = Inr tot"
    and "List db vs query opts h = ((vs', Some a, err), h', evs)"
  shows "CountRecords (objs h' a) = (if tot \<le>s 0 then 0 else tot)"
proof -
  let ?fs = "filter (\<lambda>opt. \<not> IsPaginationOption opt \<and> \<not> IsSortingOption opt) opts"
  obtain b h1 where dp:
    "defaultPaging (filter IsPaginationOption opts) h = ([withOffsetPaginationOption b], h1)"
    using defaultPaging_single [OF assms(1), of h] by auto
  have np: "\<forall>opt \<in> set ?fs. \<not> IsPaginationOption opt" by simp
  have ap: "ApplyAll ?fs query h1 = (query1, h1)"
    using ApplyAll_not_paging [OF np, of query h1 h] assms(2)
    by (cases "ApplyAll ?fs query h1") simp
  define h3 where "h3 = store b (SetCountRecords tot (objs h1 b)) h1"
  have cr: "CountRecords (objs h3 b) = (if tot \<le>s 0 then 0 else tot)"
    by (simp add: h3_def store_def SetCountRecords_def normalize_CountRecords)
  have nn: "normalize (objs h3 b) = objs h3 b"
    by (simp add: h3_def store_def SetCountRecords_def normalize_idem)
  obtain query2 where so: "ApplyAll (filter IsSortingOption opts) query1 h3 = (query2, h3)"
    using ApplyAll_not_paging [OF sorting_not_paging, of opts query1 h3 h3]
    by (cases "ApplyAll (filter IsSortingOption opts) query1 h3") simp
  have st: "store b (objs h3 b) h3 = h3" by (simp add: store_def)
  show ?thesis
    using assms(5) cr
    by (auto simp add: List_def CategorizedListOptions_filter dp ap assms(3,4) Let_def
          h3_def [symmetric] so Apply_paging nn st
          simp del: Apply.simps split: sum.splits prod.splits if_splits)
qed

text \<open>
  Claim C10. The categorization is a partition by two tests that exclude one another:
  the paging options, the sorting options, and as filtering options all the others, each
  list in the order of the option list, so that every option is in exactly one of them
  (the three lengths add up). A \<open>ListOptionFunc\<close> is never paging nor sorting. When
  there is at most one paging option, the first step of \<open>List\<close> assembles the count
  statement derived from the statement to which all the filtering options have been
  applied, in order; if that succeeds the next step executes it, and the total count
  in the pagination that \<open>List\<close> returns is what that execution returned (0 if negative).
\<close>

theorem categorization_partition:
  "CategorizedListOptions opts =
     (filter (\<lambda>opt. \<not> IsPaginationOption opt \<and> \<not> IsSortingOption opt) opts,
      filter IsPaginationOption opts,
      filter IsSortingOption opts)
   \<and> length (filter (\<lambda>opt. \<not> IsPaginationOption opt \<and> \<not> IsSortingOption opt) opts)
       + length (filter IsPaginationOption opts) + length (filter IsSortingOption opts)
     = length opts
   \<and> \<not> (IsPaginationOption opt \<and> IsSortingOption opt)
   \<and> \<not> IsPaginationOption (ListOptionFunc f) \<and> \<not> IsSortingOption (ListOptionFunc f)
   \<and> (length (filter IsPaginationOption opts) \<le> 1 \<longrightarrow>
        (\<exists>res h' evs.
           List db vs query opts h =
             (res, h',
              Assembled (ToSql (toCountQuery (fst (ApplyAll
                 (filter (\<lambda>opt. \<not> IsPaginationOption opt \<and> \<not> IsSortingOption opt) opts)
                 query h)))) # evs)
           \<and> (\<forall>sqlstr args.
                 ToSql (toCountQuery (fst (ApplyAll
                   (filter (\<lambda>opt. \<not> IsPaginationOption opt \<and> \<not> IsSortingOption opt) opts)
                   query h))) = Inr (sqlstr, args) \<longrightarrow>
                 (\<exists>evs'. evs = QueryRowCall sqlstr args # evs')
                 \<and> (\<forall>tot a. QueryRow db sqlstr args = Inr tot \<and> fst (snd res) = Some a \<longrightarrow>
                       CountRecords (objs h' a) = (if tot \<le>s 0 then 0 else tot)))))"
proof -
  let ?query1 = "fst (ApplyAll
                 (filter (\<lambda>opt. \<not> IsPaginationOption opt \<and> \<not> IsSortingOption opt) opts)
                 query h)"
  have "\<exists>res h' evs.
           List db vs query opts h = (res, h', Assembled (ToSql (toCountQuery ?query1)) # evs)
           \<and> (\<forall>sqlstr args.
                 ToSql (toCountQuery ?query1) = Inr (sqlstr, args) \<longrightarrow>
                 (\<exists>evs'. evs = QueryRowCall sqlstr args # evs')
                 \<and> (\<forall>tot a. QueryRow db sqlstr args = Inr tot \<and> fst (snd res) = Some a \<longrightarrow>
                       CountRecords (objs h' a) = (if tot \<le>s 0 then 0 else tot)))"
    if le: "length (filter IsPaginationOption opts) \<le> 1"
  proof -
    from List_first_steps [OF le refl, of db vs query h]
    obtain res h' evs where
      run: "List db vs query opts h = (res, h', Assembled (ToSql (toCountQuery ?query1)) # evs)"
      and next_step: "\<forall>sqlstr args. ToSql (toCountQuery ?query1) = Inr (sqlstr, args) \<longrightarrow>
                  (\<exists>evs'. evs = QueryRowCall sqlstr args # evs')"
      by blast
    have "CountRecords (objs h' a) = (if tot \<le>s 0 then 0 else tot)"
      if t1: "ToSql (toCountQuery ?query1) = Inr (sqlstr, args)"
        and t2: "QueryRow db sqlstr args = Inr tot" and t3: "fst (snd res) = Some a"
      for sqlstr args tot a
    proof -
      obtain vs' err where "res = (vs', Some a, err)"
        using t3 by (cases res) auto
      with run show ?thesis
        using List_reported_total [OF le refl t1 t2] by blast
    qed
    with run next_step show ?thesis by blast
  qed
  moreover have "\<not> (IsPaginationOption opt \<and> IsSortingOption opt)"
    by (auto dest: IsSorting_not_IsPagination)
  ultimately show ?thesis
    using CategorizedListOptions_filter [of opts] partition_lengths [of opts] by simp
qed

theorem categorization_partition_witness:
  "length (filter IsPaginationOption
      [ListOptionFunc where_id, withSortByOption ''id'' ''desc'', withOffsetPaginationOption 0]) \<le> 1
   \<and> (\<exists>res h' evs.
        List example_db [] users_query
          [ListOptionFunc where_id, withSortByOption ''id'' ''desc'', withOffsetPaginationOption 0]
          example_heap
        = (res, h',
           Assembled (Inr (''SELECT COUNT(*) FROM users WHERE id = ?'', [7])) # evs))"
proof -
  let ?opts = "[ListOptionFunc where_id, withSortByOption ''id'' ''desc'',
                withOffsetPaginationOption 0] :: int ListOption list"
  let ?query1 = "fst (ApplyAll
             (filter (\<lambda>opt. \<not> IsPaginationOption opt \<and> \<not> IsSortingOption opt) ?opts)
             users_query example_heap)"
  have le: "length (filter IsPaginationOption ?opts) \<le> 1" by simp
  have "?query1 = where_id users_query" by simp
  moreover have "ToSql (toCountQuery (where_id users_query))
           = Inr (''SELECT COUNT(*) FROM users WHERE id = ?'', [7])"
    by code_simp
  ultimately have q: "ToSql (toCountQuery ?query1)
           = Inr (''SELECT COUNT(*) FROM users WHERE id = ?'', [7])"
    by (simp only:)
  note part = categorization_partition [of ?opts "ListOptionFunc where_id" where_id
      example_db "[]" users_query example_heap]
  note run = part [THEN conjunct2, THEN conjunct2, THEN conjunct2, THEN conjunct2,
      THEN conjunct2, THEN mp, OF le]
  then obtain res h' evs where
    "List example_db [] users_query ?opts example_heap
       = (res, h', Assembled (ToSql (toCountQuery ?query1)) # evs)"
    by (elim exE conjE)
  then have "List example_db [] users_query ?opts example_heap
       = (res, h', Assembled (Inr (''SELECT COUNT(*) FROM users WHERE id = ?'', [7])) # evs)"
    by (simp only: q)
  then have "\<exists>res h' evs. List example_db [] users_query ?opts example_heap
       = (res, h', Assembled (Inr (''SELECT COUNT(*) FROM users WHERE id = ?'', [7])) # evs)"
    by (intro exI)
  with le show ?thesis by (rule conjI)
qed

end
